theory Spec2Isabelle
  imports Main "HOL-Library.Char_ord" "HOL-Library.List_Lexorder"
begin

section \<open>Keyword extraction (problem2/load\_data.py)\<close>

text \<open>
  A Python string is a sequence of code points. The extraction depends on the runtime's
  character data in two places: the class \<open>\w\<close> of the regular expression (a code
  point is a word character when it is alphanumeric or the underscore) and \<open>str.lower\<close>
  (which works on the whole string, since one letter lowers by context). Both are taken
  as parameters, as is the character type: \<open>extract_keywords_with\<close> is the function of
  the source over any characters. The rest of the development works with strings of
  8-bit characters, the code points below 256, for which \<open>is_word_char\<close> and \<open>lower\<close>
  are the runtime's word class and lowering; \<open>extract_keywords\<close> is
  \<open>extract_keywords_with\<close> on these. Strings are compared lexicographically by code
  point, a proper prefix being smaller, which is how Python and the key-value service
  compare them.
\<close>

definition STOPWORDS :: "string list" where
  "STOPWORDS =
    [''the'', ''a'', ''an'', ''and'', ''or'', ''but'', ''in'', ''on'', ''at'', ''to'', ''for'',
     ''of'', ''with'', ''by'', ''from'', ''up'', ''about'', ''into'', ''through'', ''during'',
     ''is'', ''are'', ''was'', ''were'', ''be'', ''been'', ''being'', ''have'', ''has'', ''had'',
     ''do'', ''does'', ''did'', ''will'', ''would'', ''could'', ''should'', ''may'', ''might'',
     ''can'', ''this'', ''that'', ''these'', ''those'', ''we'', ''our'', ''use'', ''using'',
     ''based'', ''approach'', ''method'', ''paper'', ''propose'', ''proposed'', ''show'']"

text \<open>
  The code points below 256. The upper-case letters are \<open>A..Z\<close> and the letters
  \<open>U+00C0..U+00DE\<close> without the multiplication sign \<open>U+00D7\<close>; each lowers to the code
  point 32 above it, and \<open>str.lower\<close> leaves every other code point below 256 alone. The
  word characters are the digits, the letters \<open>A..Z\<close> and \<open>a..z\<close>, the underscore,
  the ordinal indicators \<open>U+00AA\<close> and \<open>U+00BA\<close>, the micro sign \<open>U+00B5\<close>, the
  superscript digits \<open>U+00B2\<close>, \<open>U+00B3\<close>, \<open>U+00B9\<close>, the fractions
  \<open>U+00BC..U+00BE\<close>, and the letters \<open>U+00C0..U+00FF\<close> without the multiplication and
  division signs \<open>U+00D7\<close> and \<open>U+00F7\<close>.
\<close>

definition is_upper :: "char \<Rightarrow> bool" where
  "is_upper c =
     (let n = (of_char c :: nat)
      in (65 \<le> n \<and> n \<le> 90) \<or> (192 \<le> n \<and> n \<le> 214) \<or> (216 \<le> n \<and> n \<le> 222))"

definition is_word_char :: "char \<Rightarrow> bool" where
  "is_word_char c =
     (let n = (of_char c :: nat)
      in (48 \<le> n \<and> n \<le> 57) \<or> (65 \<le> n \<and> n \<le> 90) \<or> n = 95 \<or> (97 \<le> n \<and> n \<le> 122)
         \<or> n = 170 \<or> n = 178 \<or> n = 179 \<or> n = 181 \<or> n = 185 \<or> n = 186
         \<or> (188 \<le> n \<and> n \<le> 190) \<or> (192 \<le> n \<and> n \<le> 214) \<or> (216 \<le> n \<and> n \<le> 246)
         \<or> (248 \<le> n \<and> n \<le> 255))"

definition lower_char :: "char \<Rightarrow> char" where
  "lower_char c = (if is_upper c then char_of ((of_char c :: nat) + 32) else c)"

definition lower :: "string \<Rightarrow> string" where
  "lower s = map lower_char s"

text \<open>
  \<open>re.findall(r'\b\w+\b', s)\<close>: the maximal runs of word characters of \<open>s\<close>, from left
  to right. \<open>words_from word_char w s\<close> scans \<open>s\<close> with the run \<open>w\<close> read so far.
\<close>

fun words_from :: "('c \<Rightarrow> bool) \<Rightarrow> 'c list \<Rightarrow> 'c list \<Rightarrow> 'c list list" where
  "words_from word_char w [] = (if w = [] then [] else [w])"
| "words_from word_char w (c # cs) =
     (if word_char c then words_from word_char (w @ [c]) cs
      else if w = [] then words_from word_char [] cs
      else w # words_from word_char [] cs)"

definition findall_words :: "('c \<Rightarrow> bool) \<Rightarrow> 'c list \<Rightarrow> 'c list list" where
  "findall_words word_char s = words_from word_char [] s"

text \<open>
  \<open>Counter(words)\<close>: a dictionary in insertion order, so the keys stand in the order of
  their first occurrence. \<open>counter_add\<close> is one step \<open>d[w] = d.get(w, 0) + 1\<close>.
\<close>

fun counter_add :: "('k \<times> nat) list \<Rightarrow> 'k \<Rightarrow> ('k \<times> nat) list" where
  "counter_add [] w = [(w, 1)]"
| "counter_add ((k, c) # kcs) w =
     (if k = w then (k, Suc c) # kcs else (k, c) # counter_add kcs w)"

definition Counter :: "'k list \<Rightarrow> ('k \<times> nat) list" where
  "Counter ws = foldl counter_add [] ws"

text \<open>
  \<open>most_common(n)\<close> is \<open>heapq.nlargest(n, items, key=count)\<close>, documented as
  \<open>sorted(items, key=count, reverse=True)[:n]\<close>: a stable sort by descending count (entries
  of equal count keep their dictionary order), cut to the first \<open>n\<close>; a negative \<open>n\<close>
  gives the empty list.
\<close>

definition most_common :: "int \<Rightarrow> ('k \<times> nat) list \<Rightarrow> ('k \<times> nat) list" where
  "most_common n kcs = take (nat n) (sort_key (\<lambda>kc. - int (snd kc)) kcs)"

text \<open>
  \<open>extract_keywords\<close> of the source, with the word class, \<open>str.lower\<close> and the stopword
  set over the character type as parameters.
\<close>

definition extract_keywords_with ::
  "('c \<Rightarrow> bool) \<Rightarrow> ('c list \<Rightarrow> 'c list) \<Rightarrow> 'c list list \<Rightarrow> 'c list \<Rightarrow> int \<Rightarrow> 'c list list" where
  "extract_keywords_with word_char lower_str stopwords text top_n =
     (let words = findall_words word_char (lower_str text);
          words = filter (\<lambda>w. w \<notin> set stopwords \<and> length w > 2) words;
          counter = Counter words
      in map fst (most_common top_n counter))"

definition extract_keywords :: "string \<Rightarrow> int \<Rightarrow> string list" where
  "extract_keywords text top_n = extract_keywords_with is_word_char lower STOPWORDS text top_n"

section \<open>Records and items (problem2/load\_data.py)\<close>

text \<open>
  A paper is a JSON object; a key may be missing, and reading a missing key with
  \<open>paper['k']\<close> raises \<open>KeyError\<close>. An item is the dictionary written to the table: the
  key attributes \<open>PK\<close> and \<open>SK\<close>, the key attributes of the three secondary indexes
  where the item has them, and the payload.
\<close>

datatype error = KeyError | ParamValidationError | ValidationException

record paper =
  paper_arxiv_id :: "string option"
  paper_title :: "string option"
  paper_authors :: "string list option"
  paper_abstract :: "string option"
  paper_categories :: "string list option"
  paper_published :: "string option"

record item =
  PK :: string
  SK :: string
  GSI1PK :: "string option"
  GSI1SK :: "string option"
  GSI2PK :: "string option"
  GSI2SK :: "string option"
  GSI3PK :: "string option"
  GSI3SK :: "string option"
  arxiv_id :: string
  title :: string
  authors :: "string list"
  abstract :: "string option"
  categories :: "string list"
  item_keywords :: "string list option"
  published :: string

definition category_item ::
  "string \<Rightarrow> string \<Rightarrow> string \<Rightarrow> string list \<Rightarrow> string \<Rightarrow> string list \<Rightarrow> string list \<Rightarrow> string
     \<Rightarrow> string \<Rightarrow> item" where
  "category_item aid published_date ttl auths abstr cats kws pub category =
     \<lparr>PK = ''CATEGORY#'' @ category, SK = published_date @ ''#'' @ aid,
      GSI1PK = None, GSI1SK = None,
      GSI2PK = Some (''ARXIV#'' @ aid), GSI2SK = Some (''CATEGORY#'' @ category),
      GSI3PK = None, GSI3SK = None,
      arxiv_id = aid, title = ttl, authors = auths, abstract = Some abstr, categories = cats,
      item_keywords = Some kws, published = pub\<rparr>"

definition author_item ::
  "string \<Rightarrow> string \<Rightarrow> string \<Rightarrow> string list \<Rightarrow> string list \<Rightarrow> string \<Rightarrow> string \<Rightarrow> item" where
  "author_item aid published_date ttl auths cats pub author =
     \<lparr>PK = ''ARXIV#'' @ aid, SK = ''AUTHOR#'' @ author @ ''#'' @ published_date,
      GSI1PK = Some (''AUTHOR#'' @ author), GSI1SK = Some (published_date @ ''#'' @ aid),
      GSI2PK = None, GSI2SK = None, GSI3PK = None, GSI3SK = None,
      arxiv_id = aid, title = ttl, authors = auths, abstract = None, categories = cats,
      item_keywords = None, published = pub\<rparr>"

definition keyword_item ::
  "string \<Rightarrow> string \<Rightarrow> string \<Rightarrow> string list \<Rightarrow> string list \<Rightarrow> string \<Rightarrow> string \<Rightarrow> item" where
  "keyword_item aid published_date ttl auths cats pub kw =
     \<lparr>PK = ''ARXIV#'' @ aid, SK = ''KEYWORD#'' @ kw @ ''#'' @ published_date,
      GSI1PK = None, GSI1SK = None, GSI2PK = None, GSI2SK = None,
      GSI3PK = Some (''KEYWORD#'' @ kw), GSI3SK = Some (published_date @ ''#'' @ aid),
      arxiv_id = aid, title = ttl, authors = auths, abstract = None, categories = cats,
      item_keywords = None, published = pub\<rparr>"

definition paper_id_item ::
  "string \<Rightarrow> string \<Rightarrow> string list \<Rightarrow> string \<Rightarrow> string list \<Rightarrow> string list \<Rightarrow> string \<Rightarrow> item" where
  "paper_id_item aid ttl auths abstr cats kws pub =
     \<lparr>PK = ''ARXIV#'' @ aid, SK = ''ARXIV#'' @ aid,
      GSI1PK = None, GSI1SK = None,
      GSI2PK = Some (''ARXIV#'' @ aid), GSI2SK = Some (''ARXIV#'' @ aid),
      GSI3PK = None, GSI3SK = None,
      arxiv_id = aid, title = ttl, authors = auths, abstract = Some abstr, categories = cats,
      item_keywords = Some kws, published = pub\<rparr>"

text \<open>
  \<open>transform_paper\<close>. The last \<open>items.append\<close> reads all six keys of the paper with
  \<open>paper[...]\<close>, so the function returns exactly when all six are present and raises
  \<open>KeyError\<close> otherwise (which key the exception names is not modelled). When it returns,
  the defaults of \<open>paper.get\<close> are never used. \<open>published[:10]\<close> is \<open>take 10\<close>.
\<close>

definition transform_paper :: "paper \<Rightarrow> error + item list" where
  "transform_paper p =
     (case paper_arxiv_id p of None \<Rightarrow> Inl KeyError | Some aid \<Rightarrow>
      case paper_published p of None \<Rightarrow> Inl KeyError | Some pub \<Rightarrow>
      case paper_title p of None \<Rightarrow> Inl KeyError | Some ttl \<Rightarrow>
      case paper_authors p of None \<Rightarrow> Inl KeyError | Some auths \<Rightarrow>
      case paper_abstract p of None \<Rightarrow> Inl KeyError | Some abstr \<Rightarrow>
      case paper_categories p of None \<Rightarrow> Inl KeyError | Some cats \<Rightarrow>
        (let kws = extract_keywords abstr 10;
             published_date = take 10 pub
         in Inr (map (category_item aid published_date ttl auths abstr cats kws pub) cats
               @ map (author_item aid published_date ttl auths cats pub) auths
               @ map (keyword_item aid published_date ttl auths cats pub) kws
               @ [paper_id_item aid ttl auths abstr cats kws pub])))"

section \<open>The table (the key-value service behind boto3)\<close>

text \<open>
  The table is the external collaborator. It is modelled by what the service documents:
  a table holds at most one item per primary key \<open>(PK, SK)\<close>; \<open>PutItem\<close> without a
  condition expression creates the item or replaces the item that has the same primary
  key; a query returns the items of one partition of the table or of a secondary index,
  in the order of the sort key; an item is in a secondary index when it has both key
  attributes of that index. The order in which \<open>items\<close> lists the stored items has no
  meaning of its own: it only fixes which of two index entries with the same index key
  a query lists first, which the service leaves open.
\<close>

datatype index = AuthorIndex | PaperIdIndex | KeywordIndex

record table =
  items :: "item list"
  gsis :: "index list"

definition item_key :: "item \<Rightarrow> string \<times> string" where
  "item_key i = (PK i, SK i)"

definition put_item :: "table \<Rightarrow> item \<Rightarrow> table" where
  "put_item t i = t\<lparr>items := filter (\<lambda>j. item_key j \<noteq> item_key i) (items t) @ [i]\<rparr>"

text \<open>
  \<open>batch_write\<close>. The batch writer of the client library keeps the puts in a buffer and
  sends the buffer as one request as soon as it holds 25 of them, and what is left when
  the \<open>with\<close> block ends. \<open>batch_requests\<close> gives these requests. The service refuses
  a request that names the same primary key twice (\<open>ValidationException\<close>), and the
  exception ends the run; a request it accepts is the puts of its items, in order. So a
  batch that is accepted as a whole leaves the table that \<open>put_items\<close> describes.
\<close>

fun batch_requests :: "item list \<Rightarrow> item list \<Rightarrow> item list list" where
  "batch_requests buffer [] = (if buffer = [] then [] else [buffer])"
| "batch_requests buffer (i # its) =
     (if 25 \<le> length (buffer @ [i]) then (buffer @ [i]) # batch_requests [] its
      else batch_requests (buffer @ [i]) its)"

definition put_items :: "table \<Rightarrow> item list \<Rightarrow> table" where
  "put_items t its = foldl put_item t its"

definition batch_write :: "table \<Rightarrow> item list \<Rightarrow> error + table" where
  "batch_write t its =
     (if list_all (\<lambda>request. distinct (map item_key request)) (batch_requests [] its)
      then Inr (put_items t its)
      else Inl ValidationException)"

text \<open>
  \<open>create_table\<close> drops an existing table of that name and creates an empty one with the
  three secondary indexes.
\<close>

definition create_table :: table where
  "create_table = \<lparr>items = [], gsis = [AuthorIndex, PaperIdIndex, KeywordIndex]\<rparr>"

text \<open>
  The loading part of \<open>main\<close>: the table is created, every paper is transformed (the
  first \<open>KeyError\<close> ends the run before anything is written), and the items of all
  papers go to the fresh table in one \<open>batch_write\<close>.
\<close>

fun transform_all :: "paper list \<Rightarrow> error + item list" where
  "transform_all [] = Inr []"
| "transform_all (p # ps) =
     (case transform_paper p of
        Inl e \<Rightarrow> Inl e
      | Inr its \<Rightarrow> (case transform_all ps of Inl e \<Rightarrow> Inl e | Inr rest \<Rightarrow> Inr (its @ rest)))"

definition load_papers :: "paper list \<Rightarrow> error + table" where
  "load_papers ps =
     (case transform_all ps of Inl e \<Rightarrow> Inl e | Inr its \<Rightarrow> batch_write create_table its)"

text \<open>
  The requests the program sends. A query names an optional index, the partition key
  value, an optional inclusive range of the sort key (\<open>between\<close>), the direction
  (\<open>ScanIndexForward\<close>, true when not given) and an optional \<open>Limit\<close>. The scan is
  the one of the by-author fallback: it filters on \<open>contains(authors, name)\<close>, which on
  a list attribute is membership, and has no limit.
\<close>

datatype request =
  Query "index option" string "(string \<times> string) option" bool "int option"
| Scan_authors_contains string

type_synonym backend = "request \<Rightarrow> error + item list"

fun key_attrs :: "index option \<Rightarrow> item \<Rightarrow> (string \<times> string) option" where
  "key_attrs None i = Some (PK i, SK i)"
| "key_attrs (Some AuthorIndex) i =
     (case (GSI1PK i, GSI1SK i) of (Some p, Some s) \<Rightarrow> Some (p, s) | _ \<Rightarrow> None)"
| "key_attrs (Some PaperIdIndex) i =
     (case (GSI2PK i, GSI2SK i) of (Some p, Some s) \<Rightarrow> Some (p, s) | _ \<Rightarrow> None)"
| "key_attrs (Some KeywordIndex) i =
     (case (GSI3PK i, GSI3SK i) of (Some p, Some s) \<Rightarrow> Some (p, s) | _ \<Rightarrow> None)"

definition sort_attr :: "index option \<Rightarrow> item \<Rightarrow> string" where
  "sort_attr idx i = (case key_attrs idx i of Some (p, s) \<Rightarrow> s | None \<Rightarrow> [])"

definition matches :: "index option \<Rightarrow> string \<Rightarrow> (string \<times> string) option \<Rightarrow> item \<Rightarrow> bool" where
  "matches idx pk rng i =
     (case key_attrs idx i of
        None \<Rightarrow> False
      | Some (p, s) \<Rightarrow> p = pk \<and> (case rng of None \<Rightarrow> True | Some (lo, hi) \<Rightarrow> lo \<le> s \<and> s \<le> hi))"

text \<open>
  The service's answers. Three requests are refused: a \<open>Limit\<close> below 1 (the client
  library validates the parameter against the service's minimum of 1 and raises
  \<open>ParamValidationError\<close>), a query on an index the table does not have, and a
  \<open>between\<close> whose lower bound is above its upper bound (both \<open>ValidationException\<close>).
  Results are taken to fit one page of the service's answer.
\<close>

fun dynamodb :: "table \<Rightarrow> backend" where
  "dynamodb t (Query idx pk rng forward lim) =
     (if (case lim of Some l \<Rightarrow> l < 1 | None \<Rightarrow> False) then Inl ParamValidationError
      else if (case idx of Some ix \<Rightarrow> ix \<notin> set (gsis t) | None \<Rightarrow> False) then Inl ValidationException
      else if (case rng of Some (lo, hi) \<Rightarrow> hi < lo | None \<Rightarrow> False) then Inl ValidationException
      else
        (let ascending = sort_key (sort_attr idx) (filter (matches idx pk rng) (items t));
             ordered = (if forward then ascending else rev ascending)
         in Inr (case lim of None \<Rightarrow> ordered | Some l \<Rightarrow> take (nat l) ordered)))"
| "dynamodb t (Scan_authors_contains name) =
     Inr (filter (\<lambda>i. name \<in> set (authors i)) (items t))"

section \<open>Queries (problem2/query\_papers.py, problem2/api\_server.py)\<close>

text \<open>
  Every query function makes one call of the table object and builds its answer from the
  returned items; an exception of the call propagates. The table object is the parameter
  \<open>b\<close>. Of the returned dictionary, \<open>results\<close> and \<open>count\<close> are modelled (the other
  entries repeat the parameters or hold the measured time).
\<close>

record projection =
  res_arxiv_id :: string
  res_title :: string
  res_authors :: "string list"
  res_published :: string
  res_categories :: "string list"

record response =
  results :: "projection list"
  count :: nat

definition project :: "item \<Rightarrow> projection" where
  "project i = \<lparr>res_arxiv_id = arxiv_id i, res_title = title i, res_authors = authors i,
                res_published = published i, res_categories = categories i\<rparr>"

definition respond :: "item list \<Rightarrow> response" where
  "respond its = \<lparr>results = map project its, count = length (map project its)\<rparr>"

definition query_recent_in_category :: "backend \<Rightarrow> string \<Rightarrow> int \<Rightarrow> error + response" where
  "query_recent_in_category b category limit =
     (case b (Query None (''CATEGORY#'' @ category) None False (Some limit)) of
        Inl e \<Rightarrow> Inl e
      | Inr its \<Rightarrow> Inr (respond its))"

definition get_paper_by_id :: "backend \<Rightarrow> string \<Rightarrow> error + response" where
  "get_paper_by_id b aid =
     (case b (Query (Some PaperIdIndex) (''ARXIV#'' @ aid) None True None) of
        Inl e \<Rightarrow> Inl e
      | Inr [] \<Rightarrow> Inr \<lparr>results = [], count = 0\<rparr>
      | Inr (i # _) \<Rightarrow> Inr \<lparr>results = [project i], count = 1\<rparr>)"

definition query_papers_in_date_range ::
  "backend \<Rightarrow> string \<Rightarrow> string \<Rightarrow> string \<Rightarrow> error + response" where
  "query_papers_in_date_range b category start_date end_date =
     (case b (Query None (''CATEGORY#'' @ category)
                (Some (start_date @ ''#'', end_date @ ''#zzzzzzzz'')) True None) of
        Inl e \<Rightarrow> Inl e
      | Inr its \<Rightarrow> Inr (respond its))"

definition query_papers_by_keyword :: "backend \<Rightarrow> string \<Rightarrow> int \<Rightarrow> error + response" where
  "query_papers_by_keyword b keyword limit =
     (case b (Query (Some KeywordIndex) (''KEYWORD#'' @ lower keyword) None False (Some limit)) of
        Inl e \<Rightarrow> Inl e
      | Inr its \<Rightarrow> Inr (respond its))"

text \<open>
  \<open>query_papers_by_author\<close> of api\_server.py (\<open>limit\<close> is the integer \<open>int(limit)\<close>):
  the index query inside \<open>try\<close>, and under \<open>except Exception\<close>, which the source
  comments \<open># fallback if GSI missing\<close>, the scan. The handler catches every exception
  of the index query, whatever its cause.
\<close>

definition api_query_papers_by_author :: "backend \<Rightarrow> string \<Rightarrow> int \<Rightarrow> error + item list" where
  "api_query_papers_by_author b author_name limit =
     (case b (Query (Some AuthorIndex) (''AUTHOR#'' @ author_name) None True (Some limit)) of
        Inr its \<Rightarrow> Inr its
      | Inl e \<Rightarrow> b (Scan_authors_contains author_name))"

section \<open>Vocabulary of the properties\<close>

text \<open>The position of the first occurrence of \<open>w\<close> in \<open>ws\<close> (its length when there is none).\<close>

definition first_index :: "'a list \<Rightarrow> 'a \<Rightarrow> nat" where
  "first_index ws w = length (takeWhile (\<lambda>x. x \<noteq> w) ws)"

text \<open>A record as the specification has it: a paper with all six keys present.\<close>

definition full_paper ::
  "string \<Rightarrow> string \<Rightarrow> string list \<Rightarrow> string \<Rightarrow> string list \<Rightarrow> string \<Rightarrow> paper" where
  "full_paper aid ttl auths abstr cats pub =
     \<lparr>paper_arxiv_id = Some aid, paper_title = Some ttl, paper_authors = Some auths,
      paper_abstract = Some abstr, paper_categories = Some cats, paper_published = Some pub\<rparr>"

text \<open>
  The four kinds of item, told apart by their keys: the canonical item of a paper has
  \<open>ARXIV#<id>\<close> as both key attributes, a category item lives in a \<open>CATEGORY#\<close>
  partition, an author item carries the key of the author index and a keyword item the
  key of the keyword index.
\<close>

definition is_by_id :: "item \<Rightarrow> bool" where
  "is_by_id i = (PK i = ''ARXIV#'' @ arxiv_id i \<and> SK i = ''ARXIV#'' @ arxiv_id i)"

definition is_by_category :: "item \<Rightarrow> bool" where
  "is_by_category i = (take 9 (PK i) = ''CATEGORY#'')"

definition is_by_author :: "item \<Rightarrow> bool" where
  "is_by_author i = (GSI1PK i \<noteq> None)"

definition is_by_keyword :: "item \<Rightarrow> bool" where
  "is_by_keyword i = (GSI3PK i \<noteq> None)"

text \<open>The publication date of a result: the first ten characters of \<open>published\<close>.\<close>

definition res_date :: "projection \<Rightarrow> string" where
  "res_date r = take 10 (res_published r)"

text \<open>
  Well-formedness of a record's data: \<open>published\<close> starts with the ten characters of
  the date \<open>YYYY-MM-DD\<close>; the id is not above the upper bound \<open>zzzzzzzz\<close> that the
  date-range query appends to its end date.
\<close>

definition well_dated :: "paper \<Rightarrow> bool" where
  "well_dated p = (case paper_published p of Some pub \<Rightarrow> 10 \<le> length pub | None \<Rightarrow> False)"

definition id_below_sentinel :: "paper \<Rightarrow> bool" where
  "id_below_sentinel p =
     (case paper_arxiv_id p of Some aid \<Rightarrow> aid \<le> ''zzzzzzzz'' | None \<Rightarrow> False)"

text \<open>The same table with one secondary index taken away (the index forcibly disabled).\<close>

definition without_index :: "index \<Rightarrow> table \<Rightarrow> table" where
  "without_index ix t = t\<lparr>gsis := removeAll ix (gsis t)\<rparr>"

text \<open>
  Fixtures. \<open>fixture\<close> is the scenario of the specification: two records, in \<open>cs.AI\<close>
  and in \<open>cs.AI\<close> and \<open>cs.CL\<close>, dated 2024-01-01 and 2024-01-02. \<open>sentinel_fixture\<close>
  holds one record whose id is above \<open>zzzzzzzz\<close>. \<open>einstein_fixture\<close> holds eleven
  records of one author.
\<close>

definition fixture :: "paper list" where
  "fixture =
     [full_paper ''2401.00001'' ''First'' [''A. Einstein''] [] [''cs.AI''] ''2024-01-01T09:00:00Z'',
      full_paper ''2401.00002'' ''Second'' [''A. Einstein'', ''N. Bohr''] [] [''cs.AI'', ''cs.CL'']
        ''2024-01-02T09:00:00Z'']"

definition sentinel_fixture :: "paper list" where
  "sentinel_fixture =
     [full_paper ''zzzzzzzzz'' ''Late'' [''N. Bohr''] [] [''cs.AI''] ''2024-01-01T09:00:00Z'']"

definition einstein_fixture :: "paper list" where
  "einstein_fixture =
     map (\<lambda>n. full_paper (''2401.000'' @ n) ''T'' [''A. Einstein''] [] [] ''2024-01-01T00:00:00Z'')
       [''01'', ''02'', ''03'', ''04'', ''05'', ''06'', ''07'', ''08'', ''09'', ''10'', ''11'']"

section \<open>Keyword extraction: the contract\<close>

lemma lower_char_idem: "lower_char (lower_char c) = lower_char c"
  by (auto simp: lower_char_def is_upper_def Let_def)

lemma lower_pieces:
  assumes "lower s = p @ w @ q"
  shows "lower w = w"
proof -
  have "set w \<subseteq> set (lower s)"
    unfolding assms by auto
  then have "\<forall>c \<in> set w. lower_char c = c"
    by (auto simp: lower_def lower_char_idem)
  then show ?thesis
    by (simp add: lower_def map_idI)
qed

lemma words_from_piece:
  "w' \<in> set (words_from word_char w s) \<Longrightarrow> \<exists>p q. w @ s = p @ w' @ q"
proof (induction word_char w s rule: words_from.induct)
  case (1 word_char w)
  then have "w' = w" by (simp split: if_splits)
  then have "w @ [] = [] @ w' @ []" by simp
  then show ?case by blast
next
  case (2 word_char w c cs)
  show ?case
  proof (cases "word_char c")
    case True
    with 2 have "\<exists>p q. (w @ [c]) @ cs = p @ w' @ q" by simp
    then show ?thesis by simp
  next
    case False
    show ?thesis
    proof (cases "w = []")
      case True
      with False 2 obtain p q where "[] @ cs = p @ w' @ q" by auto
      then have "w @ c # cs = (c # p) @ w' @ q" using True by simp
      then show ?thesis by blast
    next
      case nonempty: False
      with False 2 consider "w' = w" | "w' \<in> set (words_from word_char [] cs)" by auto
      then show ?thesis
      proof cases
        case 1
        then have "w @ c # cs = [] @ w' @ (c # cs)" by simp
        then show ?thesis by blast
      next
        case 2
        with False nonempty "2.IH"(3) obtain p q where "[] @ cs = p @ w' @ q" by auto
        then have "w @ c # cs = (w @ c # p) @ w' @ q" by simp
        then show ?thesis by blast
      qed
    qed
  qed
qed

lemma findall_words_piece:
  "w \<in> set (findall_words word_char s) \<Longrightarrow> \<exists>p q. s = p @ w @ q"
  using words_from_piece [of w word_char "[]" s] by (simp add: findall_words_def)

lemma counter_add_map:
  assumes "distinct ks" and "w \<notin> set ks \<Longrightarrow> f w = 0"
  shows "counter_add (map (\<lambda>k. (k, f k)) ks) w =
         map (\<lambda>k. (k, (f (w := Suc (f w))) k)) (if w \<in> set ks then ks else ks @ [w])"
  using assms by (induction ks) auto

lemma first_index_less: "a \<in> set ws \<Longrightarrow> first_index ws a < length ws"
  by (induction ws) (auto simp: first_index_def)

lemma first_index_append_mem: "a \<in> set ws \<Longrightarrow> first_index (ws @ vs) a = first_index ws a"
  by (induction ws) (auto simp: first_index_def)

lemma first_index_append_new: "a \<notin> set ws \<Longrightarrow> first_index (ws @ [a]) a = length ws"
  by (induction ws) (auto simp: first_index_def)

lemma Counter_snoc: "Counter (ws @ [w]) = counter_add (Counter ws) w"
  by (simp add: Counter_def)

lemma Counter_shape:
  "\<exists>ks. Counter ws = map (\<lambda>k. (k, count_list ws k)) ks \<and> distinct ks \<and> set ks = set ws
        \<and> sorted_wrt (\<lambda>a b. first_index ws a < first_index ws b) ks"
proof (induction ws rule: rev_induct)
  case Nil
  show ?case by (simp add: Counter_def)
next
  case (snoc w ws)
  then obtain ks where ks: "Counter ws = map (\<lambda>k. (k, count_list ws k)) ks" "distinct ks"
      "set ks = set ws" "sorted_wrt (\<lambda>a b. first_index ws a < first_index ws b) ks"
    by blast
  let ?ks = "if w \<in> set ks then ks else ks @ [w]"
  have cnt: "(\<lambda>k. (k, ((count_list ws) (w := Suc (count_list ws w))) k))
             = (\<lambda>k. (k, count_list (ws @ [w]) k))"
    by (auto simp: fun_eq_iff)
  have "w \<notin> set ks \<Longrightarrow> count_list ws w = 0"
    using ks(3) by (simp add: count_list_0_iff)
  then have c: "Counter (ws @ [w]) = map (\<lambda>k. (k, count_list (ws @ [w]) k)) ?ks"
    unfolding Counter_snoc ks(1) using counter_add_map [OF ks(2), of w "count_list ws"] cnt
    by simp
  have old: "sorted_wrt (\<lambda>a b. first_index (ws @ [w]) a < first_index (ws @ [w]) b) ks"
    using ks(4) ks(3) by (rule_tac sorted_wrt_mono_rel [rotated]) (auto simp: first_index_append_mem)
  have s: "sorted_wrt (\<lambda>a b. first_index (ws @ [w]) a < first_index (ws @ [w]) b) ?ks"
    using old ks(3)
    by (auto simp: sorted_wrt_append first_index_append_mem first_index_append_new first_index_less)
  have "distinct ?ks" "set ?ks = set (ws @ [w])"
    using ks(2,3) by auto
  with c s show ?case by blast
qed

lemma insort_key_tiebreak:
  assumes "sorted_wrt (\<lambda>a b. f a < f b \<or> (f a = f b \<and> R a b)) ys" and "\<forall>y \<in> set ys. R x y"
  shows "sorted_wrt (\<lambda>a b. f a < f b \<or> (f a = f b \<and> R a b)) (insort_key f x ys)"
  using assms by (induction ys) (auto simp: set_insort_key)

lemma sort_key_tiebreak:
  "sorted_wrt R xs \<Longrightarrow> sorted_wrt (\<lambda>a b. f a < f b \<or> (f a = f b \<and> R a b)) (sort_key f xs)"
  by (induction xs) (auto intro!: insort_key_tiebreak)

lemma count_list_filter: "P a \<Longrightarrow> count_list (filter P xs) a = count_list xs a"
  by (induction xs) auto

lemma first_index_filter:
  "P a \<Longrightarrow> P b \<Longrightarrow> first_index (filter P xs) a < first_index (filter P xs) b
     \<Longrightarrow> first_index xs a < first_index xs b"
  by (induction xs) (auto simp: first_index_def split: if_splits)


lemma most_common_Counter:
  fixes ws :: "'a list" and n :: int
  defines "r \<equiv> map fst (most_common n (Counter ws))"
  shows "set r \<subseteq> set ws"
    and "sorted_wrt (\<lambda>a b. count_list ws b < count_list ws a
            \<or> (count_list ws a = count_list ws b \<and> first_index ws a < first_index ws b)) r"
proof -
  let ?f = "\<lambda>kc :: 'a \<times> nat. - int (snd kc)"
  let ?g = "\<lambda>k. (k, count_list ws k)"
  let ?Q = "\<lambda>a b. count_list ws b < count_list ws a
            \<or> (count_list ws a = count_list ws b \<and> first_index ws a < first_index ws b)"
  obtain ks where ks: "Counter ws = map ?g ks" "set ks = set ws"
      "sorted_wrt (\<lambda>a b. first_index ws a < first_index ws b) ks"
    using Counter_shape [of ws] by blast
  have r: "r = map fst (take (nat n) (sort_key ?f (map ?g ks)))"
    by (simp add: r_def most_common_def ks(1))
  have fst_g: "map fst (map ?g ks) = ks"
    by (simp add: comp_def)
  have "set r \<subseteq> fst ` set (sort_key ?f (map ?g ks))"
    unfolding r using set_take_subset [of "nat n" "sort_key ?f (map ?g ks)"] by auto
  also have "\<dots> = set ks"
    using fst_g by (metis set_map set_sort)
  finally show "set r \<subseteq> set ws"
    by (simp add: ks(2))
  have "sorted_wrt (\<lambda>x y. first_index ws (fst x) < first_index ws (fst y)) (map ?g ks)"
    using ks(3) by (simp add: sorted_wrt_map)
  then have "sorted_wrt (\<lambda>a b. ?f a < ?f b \<or> (?f a = ?f b
                \<and> first_index ws (fst a) < first_index ws (fst b))) (sort_key ?f (map ?g ks))"
    by (rule sort_key_tiebreak)
  then have "sorted_wrt (\<lambda>a b. ?Q (fst a) (fst b)) (sort_key ?f (map ?g ks))"
  proof (rule sorted_wrt_mono_rel [rotated])
    fix a b
    assume a: "a \<in> set (sort_key ?f (map ?g ks))" and b: "b \<in> set (sort_key ?f (map ?g ks))"
      and ab: "?f a < ?f b \<or> (?f a = ?f b \<and> first_index ws (fst a) < first_index ws (fst b))"
    from a have "snd a = count_list ws (fst a)" by auto
    moreover from b have "snd b = count_list ws (fst b)" by auto
    ultimately show "?Q (fst a) (fst b)"
      using ab by auto
  qed
  then have "sorted_wrt (\<lambda>a b. ?Q (fst a) (fst b)) (take (nat n) (sort_key ?f (map ?g ks)))"
    by (rule sorted_wrt_take)
  then show "sorted_wrt ?Q r"
    unfolding r by (simp add: sorted_wrt_map)
qed

lemma ranked_filter:
  assumes "sorted_wrt (\<lambda>a b. count_list (filter P xs) b < count_list (filter P xs) a
            \<or> (count_list (filter P xs) a = count_list (filter P xs) b
                \<and> first_index (filter P xs) a < first_index (filter P xs) b)) r"
    and "set r \<subseteq> set (filter P xs)"
  shows "sorted_wrt (\<lambda>a b. count_list xs b < count_list xs a
            \<or> (count_list xs a = count_list xs b \<and> first_index xs a < first_index xs b)) r"
  using assms(1)
proof (rule sorted_wrt_mono_rel [rotated])
  fix a b
  assume "a \<in> set r" and "b \<in> set r"
  then have P: "P a" "P b"
    using assms(2) by auto
  assume "count_list (filter P xs) b < count_list (filter P xs) a
            \<or> (count_list (filter P xs) a = count_list (filter P xs) b
                \<and> first_index (filter P xs) a < first_index (filter P xs) b)"
  then show "count_list xs b < count_list xs a
            \<or> (count_list xs a = count_list xs b \<and> first_index xs a < first_index xs b)"
    using first_index_filter [of P a b xs, OF P]
    by (auto simp: count_list_filter [of P, OF P(1)] count_list_filter [of P, OF P(2)])
qed

lemma extract_keywords_with_eq:
  "extract_keywords_with word_char lower_str stopwords body n =
     map fst (most_common n (Counter (filter (\<lambda>w. w \<notin> set stopwords \<and> length w > 2)
                                         (findall_words word_char (lower_str body)))))"
  unfolding extract_keywords_with_def Let_def ..

lemma extract_keywords_length: "length (extract_keywords body n) \<le> nat n"
  by (simp add: extract_keywords_def extract_keywords_with_def most_common_def)

lemma extract_keywords_empty: "extract_keywords [] n = []"
  by (simp add: extract_keywords_def extract_keywords_with_def most_common_def Counter_def
      findall_words_def lower_def)

text \<open>
  C5. For every text and every \<open>top_n\<close>, over any characters and with any word class,
  lowering and stopword set, \<open>extract_keywords\<close> returns at most \<open>top_n\<close> words (none
  when \<open>top_n\<close> is negative); every returned word is a word of the lower-cased text,
  longer than two characters and no stopword, and it is lower-case (lowering it changes
  nothing) as soon as lowering leaves every piece of a lowered string unchanged, which is
  true of \<open>str.lower\<close>; and the words stand in the order of descending frequency in the
  tokenized text, words of equal frequency in the order of their first occurrence. The
  last conjunct is the same contract for the strings of 8-bit characters.
\<close>

theorem extract_keywords_contract:
  "length (extract_keywords_with word_char lower_str stopwords body top_n) \<le> nat top_n
   \<and> (\<forall>w \<in> set (extract_keywords_with word_char lower_str stopwords body top_n).
         w \<in> set (findall_words word_char (lower_str body)) \<and> 2 < length w \<and> w \<notin> set stopwords)
   \<and> ((\<forall>s p w q. lower_str s = p @ w @ q \<longrightarrow> lower_str w = w) \<longrightarrow>
        (\<forall>w \<in> set (extract_keywords_with word_char lower_str stopwords body top_n). lower_str w = w))
   \<and> sorted_wrt
        (\<lambda>a b. count_list (findall_words word_char (lower_str body)) b
                 < count_list (findall_words word_char (lower_str body)) a
           \<or> (count_list (findall_words word_char (lower_str body)) a
                 = count_list (findall_words word_char (lower_str body)) b
               \<and> first_index (findall_words word_char (lower_str body)) a
                  < first_index (findall_words word_char (lower_str body)) b))
        (extract_keywords_with word_char lower_str stopwords body top_n)
   \<and> (\<forall>w \<in> set (extract_keywords txt top_n).
         lower w = w \<and> 2 < length w \<and> w \<notin> set STOPWORDS)"
proof -
  let ?P = "\<lambda>w. w \<notin> set stopwords \<and> length w > 2"
  let ?tokens = "findall_words word_char (lower_str body)"
  let ?r = "extract_keywords_with word_char lower_str stopwords body top_n"
  have sub: "set ?r \<subseteq> set (filter ?P ?tokens)"
    unfolding extract_keywords_with_eq by (rule most_common_Counter(1))
  have len: "length ?r \<le> nat top_n"
    by (simp add: extract_keywords_with_def most_common_def)
  have mem: "\<forall>w \<in> set ?r. w \<in> set ?tokens \<and> 2 < length w \<and> w \<notin> set stopwords"
    using sub by auto
  have low: "\<forall>w \<in> set ?r. lower_str w = w"
    if H: "\<forall>s p w q. lower_str s = p @ w @ q \<longrightarrow> lower_str w = w"
  proof
    fix w assume "w \<in> set ?r"
    with mem have "w \<in> set ?tokens" by blast
    then obtain p q where "lower_str body = p @ w @ q"
      using findall_words_piece by blast
    with H show "lower_str w = w" by blast
  qed
  have ord: "sorted_wrt
        (\<lambda>a b. count_list ?tokens b < count_list ?tokens a
           \<or> (count_list ?tokens a = count_list ?tokens b
               \<and> first_index ?tokens a < first_index ?tokens b)) ?r"
    using sub most_common_Counter(2) [of "filter ?P ?tokens" top_n]
    unfolding extract_keywords_with_eq by (rule ranked_filter [rotated])
  have inst: "\<forall>w \<in> set (extract_keywords txt top_n).
         lower w = w \<and> 2 < length w \<and> w \<notin> set STOPWORDS"
  proof
    fix w assume w: "w \<in> set (extract_keywords txt top_n)"
    have "set (extract_keywords txt top_n)
            \<subseteq> set (filter (\<lambda>w. w \<notin> set STOPWORDS \<and> length w > 2) (findall_words is_word_char (lower txt)))"
      unfolding extract_keywords_def extract_keywords_with_eq by (rule most_common_Counter(1))
    with w have t: "w \<in> set (findall_words is_word_char (lower txt))"
      and k: "2 < length w \<and> w \<notin> set STOPWORDS"
      by auto
    from t obtain p q where "lower txt = p @ w @ q"
      using findall_words_piece by blast
    then have "lower w = w" by (rule lower_pieces)
    with k show "lower w = w \<and> 2 < length w \<and> w \<notin> set STOPWORDS" by simp
  qed
  from len mem low ord inst show ?thesis
    by blast
qed

theorem extract_keywords_contract_witness:
  "extract_keywords (''Caf'' @ [CHR 0xC9] @ '' na'' @ [CHR 0xEF] @ ''ve caf'' @ [CHR 0xE9] @ '' model'') 2
     = [''caf'' @ [CHR 0xE9], ''na'' @ [CHR 0xEF] @ ''ve'']
   \<and> lower (''caf'' @ [CHR 0xE9]) = ''caf'' @ [CHR 0xE9]
   \<and> 2 < length (''caf'' @ [CHR 0xE9])
   \<and> ''caf'' @ [CHR 0xE9] \<notin> set STOPWORDS
   \<and> length (extract_keywords_with is_word_char lower STOPWORDS
        (''Caf'' @ [CHR 0xC9] @ '' na'' @ [CHR 0xEF] @ ''ve caf'' @ [CHR 0xE9] @ '' model'') 2) \<le> nat 2"
proof -
  let ?t = "''Caf'' @ [CHR 0xC9] @ '' na'' @ [CHR 0xEF] @ ''ve caf'' @ [CHR 0xE9] @ '' model''"
  let ?w = "''caf'' @ [CHR 0xE9]"
  note c = extract_keywords_contract [of is_word_char lower STOPWORDS ?t 2 ?t]
  have e: "extract_keywords ?t 2 = [?w, ''na'' @ [CHR 0xEF] @ ''ve'']"
    by code_simp
  have m: "?w \<in> set (extract_keywords ?t 2)"
    unfolding e by simp
  have H: "\<forall>s p w q. lower s = p @ w @ q \<longrightarrow> lower w = w"
    using lower_pieces by blast
  have m': "?w \<in> set (extract_keywords_with is_word_char lower STOPWORDS ?t 2)"
    using m by (simp add: extract_keywords_def)
  have "\<forall>w \<in> set (extract_keywords_with is_word_char lower STOPWORDS ?t 2). lower w = w"
    using c [THEN conjunct2, THEN conjunct2, THEN conjunct1] H by (rule mp)
  then have "lower ?w = ?w"
    using m' by (rule bspec)
  moreover have "2 < length ?w \<and> ?w \<notin> set STOPWORDS"
    using c [THEN conjunct2, THEN conjunct1, rule_format, OF m'] by blast
  moreover note e c [THEN conjunct1]
  ultimately show ?thesis
    by blast
qed

section \<open>Keyword extraction: the scenario of the specification\<close>

text \<open>
  C6, as stated, fails: on the scenario's text the program's stopword set does not yield the
  four words \<open>transformers, model, attention, powerful\<close>.
\<close>

theorem scenario_keywords_counterexample:
  "extract_keywords ''The model uses attention based transformers. Transformers are powerful.'' 10
     \<noteq> [''transformers'', ''model'', ''attention'', ''powerful'']"
  by code_simp

text \<open>
  C6, amended. \<open>uses\<close> is not in the program's stopword set (which has \<open>use\<close> and
  \<open>using\<close>), so on the scenario's text the extraction yields the five words
  \<open>transformers, model, uses, attention, powerful\<close>, by descending frequency and then first
  occurrence.
\<close>

theorem scenario_keywords:
  "extract_keywords ''The model uses attention based transformers. Transformers are powerful.'' 10
     = [''transformers'', ''model'', ''uses'', ''attention'', ''powerful'']
   \<and> ''uses'' \<notin> set STOPWORDS"
  by code_simp

section \<open>Denormalization: the items of one paper\<close>

lemma transform_paper_full:
  "transform_paper (full_paper aid ttl auths abstr cats pub) =
     Inr (map (category_item aid (take 10 pub) ttl auths abstr cats (extract_keywords abstr 10) pub) cats
        @ map (author_item aid (take 10 pub) ttl auths cats pub) auths
        @ map (keyword_item aid (take 10 pub) ttl auths cats pub) (extract_keywords abstr 10)
        @ [paper_id_item aid ttl auths abstr cats (extract_keywords abstr 10) pub])"
  by (simp add: transform_paper_def full_paper_def Let_def)

lemma filter_map_all: "(\<And>x. P (f x)) \<Longrightarrow> filter P (map f xs) = map f xs"
  by (induction xs) auto

lemma filter_map_none: "(\<And>x. \<not> P (f x)) \<Longrightarrow> filter P (map f xs) = []"
  by (induction xs) auto

lemma kinds_category [simp]:
  "is_by_category (category_item aid d ttl auths abstr cats kws pub c)"
  "\<not> is_by_id (category_item aid d ttl auths abstr cats kws pub c)"
  "\<not> is_by_author (category_item aid d ttl auths abstr cats kws pub c)"
  "\<not> is_by_keyword (category_item aid d ttl auths abstr cats kws pub c)"
  by (simp_all add: category_item_def is_by_category_def is_by_id_def is_by_author_def is_by_keyword_def)

lemma kinds_author [simp]:
  "is_by_author (author_item aid d ttl auths cats pub a)"
  "\<not> is_by_id (author_item aid d ttl auths cats pub a)"
  "\<not> is_by_category (author_item aid d ttl auths cats pub a)"
  "\<not> is_by_keyword (author_item aid d ttl auths cats pub a)"
  by (simp_all add: author_item_def is_by_category_def is_by_id_def is_by_author_def is_by_keyword_def)

lemma kinds_keyword [simp]:
  "is_by_keyword (keyword_item aid d ttl auths cats pub k)"
  "\<not> is_by_id (keyword_item aid d ttl auths cats pub k)"
  "\<not> is_by_category (keyword_item aid d ttl auths cats pub k)"
  "\<not> is_by_author (keyword_item aid d ttl auths cats pub k)"
  by (simp_all add: keyword_item_def is_by_category_def is_by_id_def is_by_author_def is_by_keyword_def)

lemma kinds_paper_id [simp]:
  "is_by_id (paper_id_item aid ttl auths abstr cats kws pub)"
  "\<not> is_by_category (paper_id_item aid ttl auths abstr cats kws pub)"
  "\<not> is_by_author (paper_id_item aid ttl auths abstr cats kws pub)"
  "\<not> is_by_keyword (paper_id_item aid ttl auths abstr cats kws pub)"
  by (simp_all add: paper_id_item_def is_by_category_def is_by_id_def is_by_author_def is_by_keyword_def)

text \<open>
  C1. For every record (a paper with all its keys), \<open>transform_paper\<close> returns a list of
  items with exactly one canonical by-id item, one category item per category of the record
  (in the record's order, in partition \<open>CATEGORY#<c>\<close>), one author item per author, and
  one keyword item per extracted keyword, of which there are at most 10; it returns no
  other item.
\<close>

theorem transform_paper_fanout:
  "\<exists>its. transform_paper (full_paper aid ttl auths abstr cats pub) = Inr its
     \<and> filter is_by_id its = [paper_id_item aid ttl auths abstr cats (extract_keywords abstr 10) pub]
     \<and> map PK (filter is_by_category its) = map (\<lambda>c. ''CATEGORY#'' @ c) cats
     \<and> map GSI1PK (filter is_by_author its) = map (\<lambda>a. Some (''AUTHOR#'' @ a)) auths
     \<and> map GSI3PK (filter is_by_keyword its) = map (\<lambda>k. Some (''KEYWORD#'' @ k)) (extract_keywords abstr 10)
     \<and> length (filter is_by_keyword its) \<le> 10
     \<and> length its = 1 + length cats + length auths + length (filter is_by_keyword its)"
proof -
  have k: "length (extract_keywords abstr 10) \<le> 10"
    using extract_keywords_length [of abstr 10] by simp
  show ?thesis
    unfolding transform_paper_full
    by (simp add: filter_map_all filter_map_none k)
      (simp add: category_item_def author_item_def keyword_item_def)
qed


section \<open>Denormalization: an id that contains the delimiter\<close>

text \<open>
  C8, as stated, fails: the record with id \<open>a#b\<close> is transformed without any error, and
  the id goes into the keys as it is.
\<close>

theorem delimiter_id_counterexample:
  "\<not> isl (transform_paper (full_paper ''a#b'' ''T'' [] [] [''c''] ''2024-01-01T00:00:00Z''))
   \<and> map item_key (projr (transform_paper (full_paper ''a#b'' ''T'' [] [] [''c''] ''2024-01-01T00:00:00Z'')))
       = [(''CATEGORY#c'', ''2024-01-01#a#b''), (''ARXIV#a#b'', ''ARXIV#a#b'')]"
  by (simp add: transform_paper_full category_item_def paper_id_item_def item_key_def
      extract_keywords_empty)

text \<open>
  C8, amended. \<open>transform_paper\<close> validates no key: for every record whose id contains
  \<open>#\<close> it returns its items without error, the id standing verbatim in the keys (the
  canonical item is keyed \<open>ARXIV#<id>\<close> twice, the category items have the sort key
  \<open><date>#<id>\<close>) and in the \<open>arxiv_id\<close> of every item.
\<close>

theorem delimiter_id_accepted:
  assumes "CHR ''#'' \<in> set aid"
  shows "\<exists>its. transform_paper (full_paper aid ttl auths abstr cats pub) = Inr its
           \<and> its \<noteq> []
           \<and> item_key (last its) = (''ARXIV#'' @ aid, ''ARXIV#'' @ aid)
           \<and> map SK (filter is_by_category its) = map (\<lambda>c. take 10 pub @ ''#'' @ aid) cats
           \<and> (\<forall>i \<in> set its. arxiv_id i = aid)"
  unfolding transform_paper_full
  by (simp add: filter_map_all filter_map_none)
    (auto simp: category_item_def author_item_def keyword_item_def paper_id_item_def item_key_def)

theorem delimiter_id_accepted_witness:
  "CHR ''#'' \<in> set ''a#b''
   \<and> (\<exists>its. transform_paper (full_paper ''a#b'' ''T'' [] [] [''c''] ''2024-01-01T00:00:00Z'') = Inr its
         \<and> item_key (last its) = (''ARXIV#a#b'', ''ARXIV#a#b''))"
proof -
  have h: "CHR ''#'' \<in> set ''a#b''" by simp
  from delimiter_id_accepted [OF h, of "''T''" "[]" "[]" "[''c'']" "''2024-01-01T00:00:00Z''"]
  show ?thesis using h by auto
qed

section \<open>Writing: put and repeated ingestion\<close>

lemma items_put_item: "items (put_item t i) = filter (\<lambda>j. item_key j \<noteq> item_key i) (items t) @ [i]"
  by (simp add: put_item_def)

lemma gsis_put_item: "gsis (put_item t i) = gsis t"
  by (simp add: put_item_def)

lemma gsis_put_items: "gsis (put_items t its) = gsis t"
  unfolding put_items_def by (induction its arbitrary: t) (simp_all add: gsis_put_item)

lemma items_put_items_snoc:
  "items (put_items t (its @ [i])) =
     filter (\<lambda>j. item_key j \<noteq> item_key i) (items (put_items t its)) @ [i]"
  by (simp add: put_items_def items_put_item)

lemma items_put_items_split:
  "items (put_items t its) =
     filter (\<lambda>j. item_key j \<notin> item_key ` set its) (items t) @ items (put_items (t\<lparr>items := []\<rparr>) its)"
proof (induction its rule: rev_induct)
  case Nil
  show ?case by (simp add: put_items_def)
next
  case (snoc i its)
  show ?case
    unfolding items_put_items_snoc snoc.IH
    by (auto intro: filter_cong)
qed

lemma set_items_put_items_empty: "set (items (put_items (t\<lparr>items := []\<rparr>) its)) \<subseteq> set its"
proof (induction its rule: rev_induct)
  case Nil
  show ?case by (simp add: put_items_def)
next
  case (snoc i its)
  then show ?case
    unfolding items_put_items_snoc by auto
qed

lemma put_items_twice: "put_items (put_items t its) its = put_items t its"
proof -
  let ?K = "\<lambda>j. item_key j \<notin> item_key ` set its"
  let ?D = "items (put_items (t\<lparr>items := []\<rparr>) its)"
  have D: "filter ?K ?D = []"
    using set_items_put_items_empty [of t its] by (auto simp: filter_empty_conv)
  have e: "put_items (t\<lparr>items := []\<rparr>) its = put_items ((put_items t its)\<lparr>items := []\<rparr>) its"
  proof -
    have "(put_items t its)\<lparr>items := []\<rparr> = t\<lparr>items := []\<rparr>"
      using gsis_put_items [of t its] by (cases t, cases "put_items t its") simp
    then show ?thesis by simp
  qed
  have "items (put_items (put_items t its) its) = items (put_items t its)"
    using items_put_items_split [of "put_items t its" its] items_put_items_split [of t its] D e
    by simp
  moreover have "gsis (put_items (put_items t its) its) = gsis (put_items t its)"
    by (simp add: gsis_put_items)
  ultimately show ?thesis
    by (cases "put_items (put_items t its) its", cases "put_items t its") simp
qed

lemma batch_write_Inr: "batch_write t its = Inr t' \<Longrightarrow> t' = put_items t its"
  by (simp add: batch_write_def split: if_splits)

lemma batch_write_accepted:
  "batch_write t its = Inr t' \<Longrightarrow> batch_write u its = Inr (put_items u its)"
  by (simp add: batch_write_def split: if_splits)

text \<open>
  C2, as stated, fails: a put on a key that exists is not a no-op. The record with id
  \<open>1\<close> and title \<open>Old\<close> is ingested; then a record with the same id and the title
  \<open>New\<close> is ingested. The second batch is accepted, and the canonical item stored under
  the key \<open>(ARXIV#1, ARXIV#1)\<close> is replaced: the table holds the title \<open>New\<close>.
\<close>

theorem put_item_overwrites_counterexample:
  "\<not> isl (batch_write create_table
        (projr (transform_paper (full_paper ''1'' ''Old'' [] [] [] ''2024-01-01''))))
   \<and> map item_key (items (projr (batch_write create_table
        (projr (transform_paper (full_paper ''1'' ''Old'' [] [] [] ''2024-01-01''))))))
     = [(''ARXIV#1'', ''ARXIV#1'')]
   \<and> map title (items (projr (batch_write create_table
        (projr (transform_paper (full_paper ''1'' ''Old'' [] [] [] ''2024-01-01''))))))
     = [''Old'']
   \<and> \<not> isl (batch_write
        (projr (batch_write create_table
           (projr (transform_paper (full_paper ''1'' ''Old'' [] [] [] ''2024-01-01'')))))
        (projr (transform_paper (full_paper ''1'' ''New'' [] [] [] ''2024-01-01''))))
   \<and> map item_key (items (projr (batch_write
        (projr (batch_write create_table
           (projr (transform_paper (full_paper ''1'' ''Old'' [] [] [] ''2024-01-01'')))))
        (projr (transform_paper (full_paper ''1'' ''New'' [] [] [] ''2024-01-01''))))))
     = [(''ARXIV#1'', ''ARXIV#1'')]
   \<and> map title (items (projr (batch_write
        (projr (batch_write create_table
           (projr (transform_paper (full_paper ''1'' ''Old'' [] [] [] ''2024-01-01'')))))
        (projr (transform_paper (full_paper ''1'' ''New'' [] [] [] ''2024-01-01''))))))
     = [''New'']"
  by code_simp

text \<open>
  C2, amended. A put stores the new item under its key, replacing the item that had this
  key, and leaves the items of every other key as they were; so a put on an existing key
  changes nothing exactly when the stored item equals the new one. Consequently, when the
  ingestion of a record (\<open>transform_paper\<close>, then \<open>batch_write\<close>) has succeeded, ingesting
  the same record a second time succeeds as well and leaves the table, its contents and
  its number of items, as it was after the first ingestion.
\<close>

theorem put_item_replaces:
  "filter (\<lambda>j. item_key j = item_key i) (items (put_item t i)) = [i]
   \<and> filter (\<lambda>j. item_key j \<noteq> item_key i) (items (put_item t i))
       = filter (\<lambda>j. item_key j \<noteq> item_key i) (items t)
   \<and> (transform_paper p = Inr its \<and> batch_write t its = Inr t1 \<longrightarrow>
        batch_write t1 its = Inr t1)"
proof -
  have "batch_write t1 its = Inr t1" if "batch_write t its = Inr t1"
  proof -
    have "t1 = put_items t its"
      using that by (rule batch_write_Inr)
    moreover have "batch_write t1 its = Inr (put_items t1 its)"
      using that by (rule batch_write_accepted)
    ultimately show ?thesis
      by (simp add: put_items_twice)
  qed
  then show ?thesis
    by (simp add: items_put_item)
qed

theorem put_item_replaces_witness:
  "\<not> isl (transform_paper (full_paper ''1'' ''T'' [''A''] [] [''cs.AI''] ''2024-01-01''))
   \<and> \<not> isl (batch_write create_table
          (projr (transform_paper (full_paper ''1'' ''T'' [''A''] [] [''cs.AI''] ''2024-01-01''))))
   \<and> length (items (projr (batch_write create_table
          (projr (transform_paper (full_paper ''1'' ''T'' [''A''] [] [''cs.AI''] ''2024-01-01''))))))
       = 3
   \<and> batch_write
        (projr (batch_write create_table
          (projr (transform_paper (full_paper ''1'' ''T'' [''A''] [] [''cs.AI''] ''2024-01-01'')))))
        (projr (transform_paper (full_paper ''1'' ''T'' [''A''] [] [''cs.AI''] ''2024-01-01'')))
      = batch_write create_table
          (projr (transform_paper (full_paper ''1'' ''T'' [''A''] [] [''cs.AI''] ''2024-01-01'')))"
proof -
  let ?p = "full_paper ''1'' ''T'' [''A''] [] [''cs.AI''] ''2024-01-01''"
  let ?its = "projr (transform_paper ?p)"
  let ?t1 = "projr (batch_write create_table ?its)"
  have a: "\<not> isl (transform_paper ?p)"
    by code_simp
  then have h1: "transform_paper ?p = Inr ?its"
    by (cases "transform_paper ?p") simp_all
  have b: "\<not> isl (batch_write create_table ?its)"
    by code_simp
  then have h2: "batch_write create_table ?its = Inr ?t1"
    by (cases "batch_write create_table ?its") simp_all
  have n: "length (items ?t1) = 3"
    by code_simp
  from put_item_replaces [where p = ?p and its = ?its and t = create_table and ?t1.0 = ?t1] h1 h2
  have "batch_write ?t1 ?its = Inr ?t1"
    by blast
  with a b n h2 show ?thesis
    by simp
qed

section \<open>The table after loading\<close>

lemma transform_paper_Inr_full:
  assumes "transform_paper p = Inr its"
  obtains aid ttl auths abstr cats pub where "p = full_paper aid ttl auths abstr cats pub"
proof -
  from assms obtain aid pub ttl auths abstr cats where
    "paper_arxiv_id p = Some aid" "paper_published p = Some pub" "paper_title p = Some ttl"
    "paper_authors p = Some auths" "paper_abstract p = Some abstr" "paper_categories p = Some cats"
    by (auto simp: transform_paper_def split: option.splits)
  then have "p = full_paper aid ttl auths abstr cats pub"
    by (cases p) (simp add: full_paper_def)
  then show ?thesis ..
qed

lemma transform_all_items:
  "transform_all ps = Inr its \<Longrightarrow>
     set its = {i. \<exists>p its'. p \<in> set ps \<and> transform_paper p = Inr its' \<and> i \<in> set its'}"
proof (induction ps arbitrary: its)
  case Nil
  then show ?case by simp
next
  case (Cons p ps)
  from Cons.prems obtain a b where ab: "transform_paper p = Inr a" "transform_all ps = Inr b"
      "its = a @ b"
    by (auto split: sum.splits)
  show ?case
    using Cons.IH [OF ab(2)] ab(1,3) by auto
qed

text \<open>What the table holds after a sequence of puts.\<close>

lemma set_items_put_items:
  "set (items (put_items t its)) \<subseteq> set (items t) \<union> set its"
proof (induction its rule: rev_induct)
  case Nil
  show ?case by (simp add: put_items_def)
next
  case (snoc i its)
  then show ?case unfolding items_put_items_snoc by auto
qed

lemma keys_put_items:
  "item_key ` set (items (put_items t its)) = item_key ` set (items t) \<union> item_key ` set its"
proof (induction its rule: rev_induct)
  case Nil
  show ?case by (simp add: put_items_def)
next
  case (snoc i its)
  have "item_key ` set (filter (\<lambda>j. item_key j \<noteq> item_key i) xs) \<union> {item_key i}
          = item_key ` set xs \<union> {item_key i}" for xs
    by auto
  then show ?case
    unfolding items_put_items_snoc using snoc.IH by auto
qed

lemma distinct_keys_put_items:
  "distinct (map item_key (items t)) \<Longrightarrow> distinct (map item_key (items (put_items t its)))"
proof (induction its rule: rev_induct)
  case Nil
  then show ?case by (simp add: put_items_def)
next
  case (snoc i its)
  then show ?case
    unfolding items_put_items_snoc by (auto simp: distinct_map_filter)
qed

text \<open>The table that \<open>load_papers\<close> returns.\<close>

lemma load_papers_table:
  assumes "load_papers ps = Inr t"
  obtains its where "transform_all ps = Inr its" and "t = put_items create_table its"
  using assms by (auto simp: load_papers_def split: sum.splits dest: batch_write_Inr)

lemma loaded_gsis:
  assumes "load_papers ps = Inr t"
  shows "gsis t = [AuthorIndex, PaperIdIndex, KeywordIndex]"
  using assms by (auto elim!: load_papers_table simp: gsis_put_items create_table_def)

lemma loaded_distinct_keys:
  assumes "load_papers ps = Inr t"
  shows "distinct (map item_key (items t))"
  using assms
  by (auto elim!: load_papers_table intro!: distinct_keys_put_items simp: create_table_def)

lemma loaded_key_unique:
  assumes "load_papers ps = Inr t" and "i \<in> set (items t)" and "j \<in> set (items t)"
    and "item_key i = item_key j"
  shows "i = j"
  using loaded_distinct_keys [OF assms(1)] assms(2-4)
  by (meson distinct_map inj_onD)

lemma loaded_item_source:
  assumes "load_papers ps = Inr t" and "i \<in> set (items t)"
  obtains aid ttl auths abstr cats pub where
    "full_paper aid ttl auths abstr cats pub \<in> set ps"
    "i \<in> set (map (category_item aid (take 10 pub) ttl auths abstr cats (extract_keywords abstr 10) pub) cats)
     \<or> i \<in> set (map (author_item aid (take 10 pub) ttl auths cats pub) auths)
     \<or> i \<in> set (map (keyword_item aid (take 10 pub) ttl auths cats pub) (extract_keywords abstr 10))
     \<or> i = paper_id_item aid ttl auths abstr cats (extract_keywords abstr 10) pub"
proof -
  from assms(1) obtain its where its: "transform_all ps = Inr its" "t = put_items create_table its"
    by (rule load_papers_table)
  have "i \<in> set its"
    using assms(2) set_items_put_items [of create_table its] its(2)
    by (auto simp: create_table_def)
  then obtain p its' where p: "p \<in> set ps" "transform_paper p = Inr its'" "i \<in> set its'"
    using transform_all_items [OF its(1)] by auto
  from p(2) obtain aid ttl auths abstr cats pub where f: "p = full_paper aid ttl auths abstr cats pub"
    by (rule transform_paper_Inr_full)
  show ?thesis
    using p that [of aid ttl auths abstr cats pub] unfolding f transform_paper_full by auto
qed

lemma loaded_key_present:
  assumes "load_papers ps = Inr t" and "p \<in> set ps" and "transform_paper p = Inr its'"
    and "i \<in> set its'"
  obtains j where "j \<in> set (items t)" and "item_key j = item_key i"
proof -
  from assms(1) obtain its where its: "transform_all ps = Inr its" "t = put_items create_table its"
    by (rule load_papers_table)
  have "i \<in> set its"
    using transform_all_items [OF its(1)] assms(2-4) by auto
  then have "item_key i \<in> item_key ` set (items t)"
    unfolding its(2) keys_put_items by simp
  then show ?thesis using that by auto
qed

lemma loaded_all_full:
  assumes "load_papers ps = Inr t" and "p \<in> set ps"
  obtains its' where "transform_paper p = Inr its'"
proof -
  from assms(1) obtain its where its: "transform_all ps = Inr its"
    by (rule load_papers_table)
  have "\<exists>its'. transform_paper p = Inr its'"
    using its assms(2)
    by (induction ps arbitrary: its) (auto split: sum.splits)
  then show ?thesis using that by auto
qed

section \<open>Recent papers of a category\<close>

lemma append_less_same_length:
  fixes a b :: string
  shows "length a = length b \<Longrightarrow> (a @ x < b @ y) = (a < b \<or> (a = b \<and> x < y))"
  by (induction a b rule: list_induct2) auto

lemma append_le_same_length:
  fixes a b :: string
  shows "length a = length b \<Longrightarrow> (a @ x \<le> b @ y) = (a < b \<or> (a = b \<and> x \<le> y))"
  by (induction a b rule: list_induct2) auto

lemma matches_primary [simp]: "matches None pk None = (\<lambda>i. PK i = pk)"
  by (simp add: matches_def fun_eq_iff)

lemma sort_attr_primary [simp]: "sort_attr None = SK"
  by (simp add: sort_attr_def fun_eq_iff)

lemma partition_strictly_sorted:
  assumes "distinct (map item_key xs)"
  shows "sorted_wrt (\<lambda>a b. SK a < SK b) (sort_key SK (filter (\<lambda>i. PK i = pk) xs))"
proof -
  let ?ys = "filter (\<lambda>i. PK i = pk) xs"
  have d: "distinct (map item_key ?ys)"
    using assms by (rule distinct_map_filter)
  have "inj_on SK (set ?ys)"
  proof (rule inj_onI)
    fix i j assume "i \<in> set ?ys" "j \<in> set ?ys" "SK i = SK j"
    then have "item_key i = item_key j" by (simp add: item_key_def)
    with d \<open>i \<in> set ?ys\<close> \<open>j \<in> set ?ys\<close> show "i = j"
      by (meson distinct_map inj_onD)
  qed
  moreover have "distinct ?ys"
    using d by (simp add: distinct_map)
  ultimately have "distinct (map SK (sort_key SK ?ys))"
    by (simp add: distinct_map)
  moreover have "sorted (map SK (sort_key SK ?ys))"
    by (rule sorted_sort_key)
  ultimately have "sorted_wrt (<) (map SK (sort_key SK ?ys))"
    by (simp add: strict_sorted_iff)
  then show ?thesis
    by (simp add: sorted_wrt_map)
qed

lemma loaded_category_item:
  assumes "load_papers ps = Inr t" and "i \<in> set (items t)" and "PK i = ''CATEGORY#'' @ c"
    and "\<forall>p \<in> set ps. well_dated p"
  shows "SK i = take 10 (published i) @ ''#'' @ arxiv_id i \<and> length (take 10 (published i)) = 10"
proof -
  from assms(1,2) obtain aid ttl auths abstr cats pub where
    src: "full_paper aid ttl auths abstr cats pub \<in> set ps"
    "i \<in> set (map (category_item aid (take 10 pub) ttl auths abstr cats (extract_keywords abstr 10) pub) cats)
     \<or> i \<in> set (map (author_item aid (take 10 pub) ttl auths cats pub) auths)
     \<or> i \<in> set (map (keyword_item aid (take 10 pub) ttl auths cats pub) (extract_keywords abstr 10))
     \<or> i = paper_id_item aid ttl auths abstr cats (extract_keywords abstr 10) pub"
    by (rule loaded_item_source)
  have "10 \<le> length pub"
    using assms(4) src(1) by (auto simp: well_dated_def full_paper_def)
  with src(2) assms(3) show ?thesis
    by (auto simp: category_item_def author_item_def keyword_item_def paper_id_item_def)
qed

lemma dynamodb_recent:
  "dynamodb t (Query None pk None False (Some limit)) =
     (if limit < 1 then Inl ParamValidationError
      else Inr (take (nat limit) (rev (sort_key SK (filter (\<lambda>i. PK i = pk) (items t))))))"
  by (simp add: Let_def)

declare dynamodb.simps [simp del]

text \<open>
  C3. On a table loaded from records whose \<open>published\<close> starts with the ten-character
  date, for every category and every limit, \<open>query_recent_in_category\<close> fails only when
  the limit is below 1, and otherwise its results are non-increasing in publication date,
  results of equal date standing in descending order of id, which is the descending
  lexicographic order of the sort keys \<open><date>#<id>\<close> written at ingestion.
\<close>

theorem recent_in_category_order:
  assumes "load_papers ps = Inr t" and "\<forall>p \<in> set ps. well_dated p"
  shows "case query_recent_in_category (dynamodb t) category limit of
           Inl e \<Rightarrow> limit < 1
         | Inr resp \<Rightarrow> 1 \<le> limit
             \<and> sorted_wrt (\<lambda>a b. res_date b < res_date a
                  \<or> (res_date a = res_date b \<and> res_arxiv_id b < res_arxiv_id a)) (results resp)"
proof (cases "limit < 1")
  case True
  then show ?thesis
    by (simp add: query_recent_in_category_def dynamodb_recent)
next
  case False
  let ?pk = "''CATEGORY#'' @ category"
  let ?asc = "sort_key SK (filter (\<lambda>i. PK i = ?pk) (items t))"
  let ?its = "take (nat limit) (rev ?asc)"
  let ?R = "\<lambda>a b. res_date b < res_date a \<or> (res_date a = res_date b \<and> res_arxiv_id b < res_arxiv_id a)"
  have "sorted_wrt (\<lambda>a b. SK a < SK b) ?asc"
    using loaded_distinct_keys [OF assms(1)] by (rule partition_strictly_sorted)
  then have "sorted_wrt (\<lambda>a b. SK b < SK a) (rev ?asc)"
    by (simp add: sorted_wrt_rev)
  then have "sorted_wrt (\<lambda>a b. SK b < SK a) ?its"
    by (rule sorted_wrt_take)
  then have "sorted_wrt (\<lambda>a b. ?R (project a) (project b)) ?its"
  proof (rule sorted_wrt_mono_rel [rotated])
    fix a b
    assume "a \<in> set ?its" and "b \<in> set ?its" and lt: "SK b < SK a"
    then have ab: "a \<in> set (items t)" "PK a = ?pk" "b \<in> set (items t)" "PK b = ?pk"
      by (auto dest!: in_set_takeD)
    note ka = loaded_category_item [OF assms(1) ab(1,2) assms(2)]
    note kb = loaded_category_item [OF assms(1) ab(3,4) assms(2)]
    have "length (take 10 (published b)) = length (take 10 (published a))"
      using ka kb by simp
    from append_less_same_length [OF this, of "''#'' @ arxiv_id b" "''#'' @ arxiv_id a"] lt ka kb
    show "?R (project a) (project b)"
      by (auto simp: res_date_def project_def)
  qed
  then have "sorted_wrt ?R (map project ?its)"
    by (simp add: sorted_wrt_map)
  with False show ?thesis
    by (simp add: query_recent_in_category_def dynamodb_recent respond_def)
qed

theorem recent_in_category_order_witness:
  "\<not> isl (load_papers fixture) \<and> list_all well_dated fixture
   \<and> map res_arxiv_id (results (projr (query_recent_in_category
        (dynamodb (projr (load_papers fixture))) ''cs.AI'' 10))) = [''2401.00002'', ''2401.00001'']
   \<and> sorted_wrt (\<lambda>a b. res_date b < res_date a
          \<or> (res_date a = res_date b \<and> res_arxiv_id b < res_arxiv_id a))
        (results (projr (query_recent_in_category
           (dynamodb (projr (load_papers fixture))) ''cs.AI'' 10)))"
proof -
  let ?t = "projr (load_papers fixture)"
  let ?q = "query_recent_in_category (dynamodb ?t) ''cs.AI'' 10"
  have l: "\<not> isl (load_papers fixture)"
    by code_simp
  then have h1: "load_papers fixture = Inr ?t"
    by (cases "load_papers fixture") simp_all
  have h2: "list_all well_dated fixture"
    by code_simp
  then have h2': "\<forall>p \<in> set fixture. well_dated p"
    by (simp add: list_all_iff)
  have e: "map res_arxiv_id (results (projr ?q)) = [''2401.00002'', ''2401.00001'']"
    by code_simp
  have "\<not> isl ?q"
    by code_simp
  then have "?q = Inr (projr ?q)"
    by (cases ?q) simp_all
  with recent_in_category_order [OF h1 h2', where category = "''cs.AI''" and limit = 10]
  have "sorted_wrt (\<lambda>a b. res_date b < res_date a
          \<or> (res_date a = res_date b \<and> res_arxiv_id b < res_arxiv_id a)) (results (projr ?q))"
    by (metis (no_types, lifting) sum.simps(6))
  with l h2 e show ?thesis
    by simp
qed

section \<open>Papers of a category in a date range\<close>

lemma loaded_item_id:
  assumes "load_papers ps = Inr t" and "i \<in> set (items t)"
  obtains p where "p \<in> set ps" and "paper_arxiv_id p = Some (arxiv_id i)"
proof -
  from assms obtain aid ttl auths abstr cats pub where
    src: "full_paper aid ttl auths abstr cats pub \<in> set ps"
    "i \<in> set (map (category_item aid (take 10 pub) ttl auths abstr cats (extract_keywords abstr 10) pub) cats)
     \<or> i \<in> set (map (author_item aid (take 10 pub) ttl auths cats pub) auths)
     \<or> i \<in> set (map (keyword_item aid (take 10 pub) ttl auths cats pub) (extract_keywords abstr 10))
     \<or> i = paper_id_item aid ttl auths abstr cats (extract_keywords abstr 10) pub"
    by (rule loaded_item_source)
  from src(2) have "arxiv_id i = aid"
    by (auto simp: category_item_def author_item_def keyword_item_def paper_id_item_def)
  then show ?thesis
    using that [OF src(1)] by (simp add: full_paper_def)
qed

lemma dynamodb_between:
  "dynamodb t (Query None pk (Some (lo, hi)) True None) =
     (if hi < lo then Inl ValidationException
      else Inr (sort_key SK (filter (\<lambda>i. PK i = pk \<and> lo \<le> SK i \<and> SK i \<le> hi) (items t))))"
proof -
  have "matches None pk (Some (lo, hi)) = (\<lambda>i. PK i = pk \<and> lo \<le> SK i \<and> SK i \<le> hi)"
    by (simp add: matches_def fun_eq_iff)
  then show ?thesis
    by (simp add: dynamodb.simps Let_def)
qed

lemma length_filter_le_limit: "int (length xs) \<le> l \<Longrightarrow> length (filter P xs) \<le> nat l"
  using length_filter_le [of P xs] by linarith

lemma image_filter_transfer:
  assumes "\<And>i. i \<in> A \<Longrightarrow> P i \<Longrightarrow> Q i = R (f i)"
  shows "f ` {i \<in> A. P i \<and> Q i} = {r \<in> f ` {i \<in> A. P i}. R r}"
  using assms by blast

lemma set_results_respond: "set (results (respond its)) = project ` set its"
  by (simp add: respond_def)

lemma range_bounds:
  fixes d1 d2 dt :: string
  assumes "length d1 = 10" and "length d2 = 10" and "length dt = 10" and "aid \<le> ''zzzzzzzz''"
  shows "(d1 @ ''#'' \<le> dt @ ''#'' @ aid \<and> dt @ ''#'' @ aid \<le> d2 @ ''#zzzzzzzz'')
          = (d1 \<le> dt \<and> dt \<le> d2)"
proof -
  have a: "(d1 @ ''#'' \<le> dt @ ''#'' @ aid) = (d1 \<le> dt)"
    using append_le_same_length [of d1 dt "''#''" "''#'' @ aid"] assms(1,3) by auto
  have b: "(dt @ ''#'' @ aid \<le> d2 @ ''#zzzzzzzz'') = (dt \<le> d2)"
    using append_le_same_length [of dt d2 "''#'' @ aid" "''#zzzzzzzz''"] assms(2,3,4) by auto
  show ?thesis
    unfolding a b ..
qed

text \<open>
  C4, as stated, fails: the record with id \<open>zzzzzzzzz\<close> is dated 2024-01-01 and the
  unlimited recent-in-category query returns it, but the date-range query for
  2024-01-01 to 2024-01-01 returns nothing, since its sort key \<open>2024-01-01#zzzzzzzzz\<close>
  is above the upper bound \<open>2024-01-01#zzzzzzzz\<close>.
\<close>

theorem date_range_counterexample:
  "\<not> isl (load_papers sentinel_fixture)
   \<and> query_papers_in_date_range (dynamodb (projr (load_papers sentinel_fixture)))
        ''cs.AI'' ''2024-01-01'' ''2024-01-01''
      = Inr \<lparr>results = [], count = 0\<rparr>
   \<and> \<not> isl (query_recent_in_category (dynamodb (projr (load_papers sentinel_fixture)))
           ''cs.AI'' 20)
   \<and> map res_arxiv_id
        (results (projr (query_recent_in_category (dynamodb (projr (load_papers sentinel_fixture)))
           ''cs.AI'' 20)))
      = [''zzzzzzzzz'']
   \<and> map res_date
        (results (projr (query_recent_in_category (dynamodb (projr (load_papers sentinel_fixture)))
           ''cs.AI'' 20)))
      = [''2024-01-01'']"
  by code_simp

text \<open>
  C4, amended. On a table loaded from records whose \<open>published\<close> starts with the
  ten-character date and whose ids are not above \<open>zzzzzzzz\<close>, for every category and all
  ten-character dates \<open>d1 \<le> d2\<close> (\<open>d1 = d2\<close> included), the set of results of
  \<open>query_papers_in_date_range\<close> is exactly the set of those results of an unlimited
  \<open>query_recent_in_category\<close> (a limit not below the size of the table) whose publication
  date lies in \<open>[d1, d2]\<close>.
\<close>

theorem date_range_in_category:
  assumes "load_papers ps = Inr t"
    and "\<forall>p \<in> set ps. well_dated p \<and> id_below_sentinel p"
    and "length d1 = 10" and "length d2 = 10" and "d1 \<le> d2"
    and "1 \<le> limit" and "int (length (items t)) \<le> limit"
  shows "\<exists>r1 r2. query_papers_in_date_range (dynamodb t) category d1 d2 = Inr r1
           \<and> query_recent_in_category (dynamodb t) category limit = Inr r2
           \<and> set (results r1) = {r \<in> set (results r2). d1 \<le> res_date r \<and> res_date r \<le> d2}"
proof -
  let ?pk = "''CATEGORY#'' @ category"
  let ?lo = "d1 @ ''#''" and ?hi = "d2 @ ''#zzzzzzzz''"
  let ?part = "filter (\<lambda>i. PK i = ?pk) (items t)"
  let ?rng = "filter (\<lambda>i. PK i = ?pk \<and> ?lo \<le> SK i \<and> SK i \<le> ?hi) (items t)"
  have "?lo \<le> ?hi"
    using append_le_same_length [of d1 d2 "''#''" "''#zzzzzzzz''"] assms(3,4,5) by auto
  then have nlt: "\<not> ?hi < ?lo"
    by simp
  have q1: "query_papers_in_date_range (dynamodb t) category d1 d2 = Inr (respond (sort_key SK ?rng))"
    using nlt dynamodb_between [of t ?pk ?lo ?hi]
    by (simp add: query_papers_in_date_range_def)
  have "length (rev (sort_key SK ?part)) \<le> nat limit"
    using length_filter_le_limit [OF assms(7)] by simp
  then have tk: "take (nat limit) (rev (sort_key SK ?part)) = rev (sort_key SK ?part)"
    by (rule take_all)
  have q2: "query_recent_in_category (dynamodb t) category limit = Inr (respond (rev (sort_key SK ?part)))"
    using assms(6) tk by (simp add: query_recent_in_category_def dynamodb_recent)
  let ?Q = "\<lambda>i. ?lo \<le> SK i \<and> SK i \<le> ?hi"
  let ?R = "\<lambda>r. d1 \<le> res_date r \<and> res_date r \<le> d2"
  have inrange: "?Q i = ?R (project i)" if i: "i \<in> set (items t)" "PK i = ?pk" for i
  proof -
    have wd: "\<forall>p \<in> set ps. well_dated p"
      using assms(2) by blast
    note k = loaded_category_item [OF assms(1) i wd]
    from assms(1) i(1) obtain p where "p \<in> set ps" "paper_arxiv_id p = Some (arxiv_id i)"
      by (rule loaded_item_id)
    then have "arxiv_id i \<le> ''zzzzzzzz''"
      using assms(2) by (auto simp: id_below_sentinel_def)
    from range_bounds [OF assms(3,4) conjunct2 [OF k] this] k show ?thesis
      by (simp add: res_date_def project_def)
  qed
  have s1: "set (sort_key SK ?rng) = {i \<in> set (items t). PK i = ?pk \<and> ?Q i}"
    by auto
  have s2: "set (rev (sort_key SK ?part)) = {i \<in> set (items t). PK i = ?pk}"
    by auto
  have "set (results (respond (sort_key SK ?rng)))
          = {r \<in> set (results (respond (rev (sort_key SK ?part)))). ?R r}"
    unfolding set_results_respond s1 s2
    by (rule image_filter_transfer) (rule inrange)
  with q1 q2 show ?thesis
    by blast
qed

theorem date_range_in_category_witness:
  "\<not> isl (load_papers fixture)
   \<and> list_all (\<lambda>p. well_dated p \<and> id_below_sentinel p) fixture
   \<and> map res_arxiv_id (results (projr (query_papers_in_date_range
        (dynamodb (projr (load_papers fixture))) ''cs.AI'' ''2024-01-02'' ''2024-01-02'')))
      = [''2401.00002'']
   \<and> set (results (projr (query_papers_in_date_range
        (dynamodb (projr (load_papers fixture))) ''cs.AI'' ''2024-01-02'' ''2024-01-02'')))
      = {r \<in> set (results (projr (query_recent_in_category
                (dynamodb (projr (load_papers fixture))) ''cs.AI'' 20))).
           ''2024-01-02'' \<le> res_date r \<and> res_date r \<le> ''2024-01-02''}"
proof -
  let ?t = "projr (load_papers fixture)"
  have l: "\<not> isl (load_papers fixture)"
    by code_simp
  then have h1: "load_papers fixture = Inr ?t"
    by (cases "load_papers fixture") simp_all
  have h2: "list_all (\<lambda>p. well_dated p \<and> id_below_sentinel p) fixture"
    by code_simp
  then have h2': "\<forall>p \<in> set fixture. well_dated p \<and> id_below_sentinel p"
    by (simp add: list_all_iff)
  have h7: "int (length (items ?t)) \<le> 20"
    by code_simp
  have e: "map res_arxiv_id (results (projr (query_papers_in_date_range
        (dynamodb ?t) ''cs.AI'' ''2024-01-02'' ''2024-01-02''))) = [''2401.00002'']"
    by code_simp
  from date_range_in_category [OF h1 h2', of "''2024-01-02''" "''2024-01-02''" 20 "''cs.AI''"] h7
  obtain r1 r2 where
    "query_papers_in_date_range (dynamodb ?t) ''cs.AI'' ''2024-01-02'' ''2024-01-02'' = Inr r1"
    "query_recent_in_category (dynamodb ?t) ''cs.AI'' 20 = Inr r2"
    "set (results r1) = {r \<in> set (results r2). ''2024-01-02'' \<le> res_date r \<and> res_date r \<le> ''2024-01-02''}"
    by auto
  with l h2 e show ?thesis
    by simp
qed

section \<open>A paper by its id\<close>

lemma sort_key_unique_min:
  assumes "c \<in> set xs" and "\<And>i. i \<in> set xs \<Longrightarrow> i \<noteq> c \<Longrightarrow> f c < f i"
  shows "\<exists>rest. sort_key f xs = c # rest"
proof (cases "sort_key f xs")
  case Nil
  then have "set (sort_key f xs) = {}" by simp
  with assms(1) show ?thesis by simp
next
  case (Cons h rest)
  have "sorted (map f (h # rest))"
    using sorted_sort_key [of f xs] Cons by simp
  moreover have "c \<in> set (h # rest)" and "h \<in> set xs"
    using assms(1) Cons set_sort [of f xs] by auto
  ultimately have "f h \<le> f c"
    by auto
  with assms(2) [OF \<open>h \<in> set xs\<close>] have "h = c"
    by force
  with Cons show ?thesis by simp
qed

lemma dynamodb_paper_id_index:
  assumes "PaperIdIndex \<in> set (gsis t)"
  shows "dynamodb t (Query (Some PaperIdIndex) pk None True None) =
     Inr (sort_key (sort_attr (Some PaperIdIndex))
           (filter (\<lambda>i. GSI2PK i = Some pk \<and> GSI2SK i \<noteq> None) (items t)))"
proof -
  have "matches (Some PaperIdIndex) pk None = (\<lambda>i. GSI2PK i = Some pk \<and> GSI2SK i \<noteq> None)"
    by (auto simp: matches_def fun_eq_iff split: option.splits)
  with assms show ?thesis
    by (simp add: dynamodb.simps Let_def)
qed

lemma loaded_canonical_present:
  assumes "load_papers ps = Inr t" and "p \<in> set ps" and "paper_arxiv_id p = Some aid"
  obtains c where "c \<in> set (items t)" and "item_key c = (''ARXIV#'' @ aid, ''ARXIV#'' @ aid)"
proof -
  from assms(1,2) obtain its' where its': "transform_paper p = Inr its'"
    by (rule loaded_all_full)
  then obtain aid' ttl auths abstr cats pub where f: "p = full_paper aid' ttl auths abstr cats pub"
    by (rule transform_paper_Inr_full)
  with assms(3) have [simp]: "aid' = aid"
    by (simp add: full_paper_def)
  let ?c = "paper_id_item aid ttl auths abstr cats (extract_keywords abstr 10) pub"
  have "?c \<in> set its'"
    using its' unfolding f transform_paper_full by auto
  from loaded_key_present [OF assms(1,2) its' this] obtain j where
    "j \<in> set (items t)" "item_key j = item_key ?c" by blast
  then show ?thesis
    using that [of j] by (simp add: item_key_def paper_id_item_def)
qed

lemma loaded_paper_id_partition:
  assumes "load_papers ps = Inr t" and "i \<in> set (items t)" and "GSI2PK i = Some (''ARXIV#'' @ aid)"
  shows "(item_key i = (''ARXIV#'' @ aid, ''ARXIV#'' @ aid) \<and> GSI2SK i = Some (''ARXIV#'' @ aid)
            \<and> is_by_id i \<and> arxiv_id i = aid)
         \<or> (\<exists>c. GSI2SK i = Some (''CATEGORY#'' @ c))"
proof -
  from assms(1,2) obtain aid' ttl auths abstr cats pub where
    "i \<in> set (map (category_item aid' (take 10 pub) ttl auths abstr cats (extract_keywords abstr 10) pub) cats)
     \<or> i \<in> set (map (author_item aid' (take 10 pub) ttl auths cats pub) auths)
     \<or> i \<in> set (map (keyword_item aid' (take 10 pub) ttl auths cats pub) (extract_keywords abstr 10))
     \<or> i = paper_id_item aid' ttl auths abstr cats (extract_keywords abstr 10) pub"
    by (rule loaded_item_source)
  with assms(3) show ?thesis
    by (auto simp: category_item_def author_item_def keyword_item_def paper_id_item_def
        item_key_def is_by_id_def)
qed

text \<open>
  C10. On a loaded table \<open>get_paper_by_id\<close> returns, for every id, at most one result,
  \<open>count\<close> being the number of results, 0 or 1. For the id of every loaded paper the
  query of the paper-id index lists the canonical item (keyed \<open>ARXIV#<id>\<close> twice) first,
  every other entry of the partition being a category entry whose index sort key
  \<open>CATEGORY#<c>\<close> is above \<open>ARXIV#<id>\<close>; so the one result is the projection of the
  canonical item.
\<close>

theorem get_paper_by_id_canonical:
  assumes "load_papers ps = Inr t"
  shows "(\<exists>r. get_paper_by_id (dynamodb t) x = Inr r \<and> count r = length (results r) \<and> count r \<le> 1)
       \<and> (\<forall>p \<in> set ps. \<forall>aid. paper_arxiv_id p = Some aid \<longrightarrow>
            (\<exists>c rest. dynamodb t (Query (Some PaperIdIndex) (''ARXIV#'' @ aid) None True None) = Inr (c # rest)
               \<and> c \<in> set (items t) \<and> is_by_id c \<and> arxiv_id c = aid
               \<and> item_key c = (''ARXIV#'' @ aid, ''ARXIV#'' @ aid)
               \<and> (\<forall>i \<in> set rest. \<exists>cat. GSI2SK i = Some (''CATEGORY#'' @ cat)
                     \<and> ''ARXIV#'' @ aid < ''CATEGORY#'' @ cat)
               \<and> get_paper_by_id (dynamodb t) aid = Inr \<lparr>results = [project c], count = 1\<rparr>))"
proof (intro conjI ballI allI impI)
  have g: "PaperIdIndex \<in> set (gsis t)"
    using loaded_gsis [OF assms] by simp
  show "\<exists>r. get_paper_by_id (dynamodb t) x = Inr r \<and> count r = length (results r) \<and> count r \<le> 1"
    unfolding get_paper_by_id_def dynamodb_paper_id_index [OF g]
    by (simp split: list.splits)
  fix p aid
  assume p: "p \<in> set ps" "paper_arxiv_id p = Some aid"
  let ?pk = "''ARXIV#'' @ aid"
  let ?f = "sort_attr (Some PaperIdIndex)"
  let ?xs = "filter (\<lambda>i. GSI2PK i = Some ?pk \<and> GSI2SK i \<noteq> None) (items t)"
  from assms p obtain c where c: "c \<in> set (items t)" "item_key c = (?pk, ?pk)"
    by (rule loaded_canonical_present)
  have c2: "GSI2PK c = Some ?pk \<and> GSI2SK c = Some ?pk \<and> is_by_id c \<and> arxiv_id c = aid"
  proof -
    from assms c(1) obtain aid' ttl auths abstr cats pub where
      "c \<in> set (map (category_item aid' (take 10 pub) ttl auths abstr cats (extract_keywords abstr 10) pub) cats)
       \<or> c \<in> set (map (author_item aid' (take 10 pub) ttl auths cats pub) auths)
       \<or> c \<in> set (map (keyword_item aid' (take 10 pub) ttl auths cats pub) (extract_keywords abstr 10))
       \<or> c = paper_id_item aid' ttl auths abstr cats (extract_keywords abstr 10) pub"
      by (rule loaded_item_source)
    with c(2) show ?thesis
      by (auto simp: category_item_def author_item_def keyword_item_def paper_id_item_def
          item_key_def is_by_id_def)
  qed
  have cx: "c \<in> set ?xs"
    using c(1) c2 by simp
  have others: "\<exists>cat. GSI2SK i = Some (''CATEGORY#'' @ cat)" if "i \<in> set ?xs" "i \<noteq> c" for i
  proof -
    from that have i: "i \<in> set (items t)" "GSI2PK i = Some ?pk" by auto
    from loaded_paper_id_partition [OF assms i] show ?thesis
    proof
      assume "item_key i = (?pk, ?pk) \<and> GSI2SK i = Some ?pk \<and> is_by_id i \<and> arxiv_id i = aid"
      then have "i = c"
        using loaded_key_unique [OF assms i(1) c(1)] c(2) by simp
      with that(2) show ?thesis by simp
    qed
  qed
  have less: "?f c < ?f i" if "i \<in> set ?xs" "i \<noteq> c" for i
  proof -
    from others [OF that] obtain cat where "GSI2SK i = Some (''CATEGORY#'' @ cat)" ..
    moreover from that(1) have "GSI2PK i = Some ?pk" by simp
    ultimately show ?thesis
      using c2 by (simp add: sort_attr_def)
  qed
  from sort_key_unique_min [of c ?xs ?f, OF cx less] obtain rest where
    rest: "sort_key ?f ?xs = c # rest" by blast
  have q: "dynamodb t (Query (Some PaperIdIndex) ?pk None True None) = Inr (c # rest)"
    unfolding dynamodb_paper_id_index [OF g] rest ..
  have dist: "distinct (sort_key ?f ?xs)"
    using loaded_distinct_keys [OF assms] by (simp add: distinct_map)
  have r: "\<forall>i \<in> set rest. \<exists>cat. GSI2SK i = Some (''CATEGORY#'' @ cat) \<and> ?pk < ''CATEGORY#'' @ cat"
  proof
    fix i assume "i \<in> set rest"
    then have "i \<in> set ?xs" "i \<noteq> c"
      using dist set_sort [of ?f ?xs] unfolding rest by auto
    from others [OF this] show "\<exists>cat. GSI2SK i = Some (''CATEGORY#'' @ cat) \<and> ?pk < ''CATEGORY#'' @ cat"
      by auto
  qed
  have "get_paper_by_id (dynamodb t) aid = Inr \<lparr>results = [project c], count = 1\<rparr>"
    unfolding get_paper_by_id_def q by simp
  with q c c2 r
  show "\<exists>c rest. dynamodb t (Query (Some PaperIdIndex) ?pk None True None) = Inr (c # rest)
               \<and> c \<in> set (items t) \<and> is_by_id c \<and> arxiv_id c = aid
               \<and> item_key c = (?pk, ?pk)
               \<and> (\<forall>i \<in> set rest. \<exists>cat. GSI2SK i = Some (''CATEGORY#'' @ cat)
                     \<and> ?pk < ''CATEGORY#'' @ cat)
               \<and> get_paper_by_id (dynamodb t) aid = Inr \<lparr>results = [project c], count = 1\<rparr>"
    by blast
qed

theorem get_paper_by_id_canonical_witness:
  "\<not> isl (load_papers fixture)
   \<and> paper_arxiv_id (fixture ! 1) = Some ''2401.00002''
   \<and> length (projr (dynamodb (projr (load_papers fixture))
        (Query (Some PaperIdIndex) ''ARXIV#2401.00002'' None True None))) = 3
   \<and> is_by_id (hd (projr (dynamodb (projr (load_papers fixture))
        (Query (Some PaperIdIndex) ''ARXIV#2401.00002'' None True None))))
   \<and> count (projr (get_paper_by_id (dynamodb (projr (load_papers fixture))) ''2401.00002'')) = 1"
proof -
  let ?t = "projr (load_papers fixture)"
  let ?q = "dynamodb ?t (Query (Some PaperIdIndex) ''ARXIV#2401.00002'' None True None)"
  have l: "\<not> isl (load_papers fixture)"
    by code_simp
  then have h1: "load_papers fixture = Inr ?t"
    by (cases "load_papers fixture") simp_all
  have p: "fixture ! 1 \<in> set fixture" "paper_arxiv_id (fixture ! 1) = Some ''2401.00002''"
    by (simp_all add: fixture_def full_paper_def)
  have n: "length (projr ?q) = 3"
    by code_simp
  from get_paper_by_id_canonical [OF h1, of "''x''", THEN conjunct2, rule_format, OF p]
  obtain c rest where "?q = Inr (c # rest)" "is_by_id c"
    "get_paper_by_id (dynamodb ?t) ''2401.00002'' = Inr \<lparr>results = [project c], count = 1\<rparr>"
    by auto
  with l p(2) n show ?thesis
    by simp
qed

section \<open>Papers of an author: index and scan\<close>

lemma dynamodb_author_index:
  "dynamodb t (Query (Some AuthorIndex) pk None True (Some limit)) =
     (if limit < 1 then Inl ParamValidationError
      else if AuthorIndex \<notin> set (gsis t) then Inl ValidationException
      else Inr (take (nat limit) (sort_key (sort_attr (Some AuthorIndex))
                  (filter (\<lambda>i. GSI1PK i = Some pk \<and> GSI1SK i \<noteq> None) (items t)))))"
proof -
  have "matches (Some AuthorIndex) pk None = (\<lambda>i. GSI1PK i = Some pk \<and> GSI1SK i \<noteq> None)"
    by (auto simp: matches_def fun_eq_iff split: option.splits)
  then show ?thesis
    by (simp add: dynamodb.simps Let_def)
qed

lemma dynamodb_scan:
  "dynamodb t (Scan_authors_contains name) = Inr (filter (\<lambda>i. name \<in> set (authors i)) (items t))"
  by (simp add: dynamodb.simps)

lemma loaded_author_index_item:
  assumes "load_papers ps = Inr t" and "i \<in> set (items t)" and "GSI1PK i = Some (''AUTHOR#'' @ name)"
  shows "name \<in> set (authors i) \<and> GSI1SK i \<noteq> None"
proof -
  from assms(1,2) obtain aid ttl auths abstr cats pub where
    "i \<in> set (map (category_item aid (take 10 pub) ttl auths abstr cats (extract_keywords abstr 10) pub) cats)
     \<or> i \<in> set (map (author_item aid (take 10 pub) ttl auths cats pub) auths)
     \<or> i \<in> set (map (keyword_item aid (take 10 pub) ttl auths cats pub) (extract_keywords abstr 10))
     \<or> i = paper_id_item aid ttl auths abstr cats (extract_keywords abstr 10) pub"
    by (rule loaded_item_source)
  with assms(3) show ?thesis
    by (auto simp: category_item_def author_item_def keyword_item_def paper_id_item_def)
qed

lemma loaded_author_entry_exists:
  assumes "load_papers ps = Inr t" and "distinct (map paper_arxiv_id ps)"
    and "i \<in> set (items t)" and "name \<in> set (authors i)"
  shows "\<exists>j \<in> set (items t). GSI1PK j = Some (''AUTHOR#'' @ name) \<and> arxiv_id j = arxiv_id i"
proof -
  from assms(1,3) obtain aid ttl auths abstr cats pub where
    P: "full_paper aid ttl auths abstr cats pub \<in> set ps" and
    i: "i \<in> set (map (category_item aid (take 10 pub) ttl auths abstr cats (extract_keywords abstr 10) pub) cats)
     \<or> i \<in> set (map (author_item aid (take 10 pub) ttl auths cats pub) auths)
     \<or> i \<in> set (map (keyword_item aid (take 10 pub) ttl auths cats pub) (extract_keywords abstr 10))
     \<or> i = paper_id_item aid ttl auths abstr cats (extract_keywords abstr 10) pub"
    by (rule loaded_item_source)
  from i have ia: "authors i = auths" "arxiv_id i = aid"
    by (auto simp: category_item_def author_item_def keyword_item_def paper_id_item_def)
  let ?a0 = "author_item aid (take 10 pub) ttl auths cats pub name"
  have "name \<in> set auths"
    using assms(4) ia by simp
  then have "?a0 \<in> set (map (category_item aid (take 10 pub) ttl auths abstr cats (extract_keywords abstr 10) pub) cats
        @ map (author_item aid (take 10 pub) ttl auths cats pub) auths
        @ map (keyword_item aid (take 10 pub) ttl auths cats pub) (extract_keywords abstr 10)
        @ [paper_id_item aid ttl auths abstr cats (extract_keywords abstr 10) pub])"
    by auto
  from loaded_key_present [OF assms(1) P transform_paper_full this]
  obtain j where j: "j \<in> set (items t)" "item_key j = item_key ?a0"
    by blast
  from assms(1) j(1) obtain aid' ttl' auths' abstr' cats' pub' where
    P': "full_paper aid' ttl' auths' abstr' cats' pub' \<in> set ps" and
    j': "j \<in> set (map (category_item aid' (take 10 pub') ttl' auths' abstr' cats' (extract_keywords abstr' 10) pub') cats')
     \<or> j \<in> set (map (author_item aid' (take 10 pub') ttl' auths' cats' pub') auths')
     \<or> j \<in> set (map (keyword_item aid' (take 10 pub') ttl' auths' cats' pub') (extract_keywords abstr' 10))
     \<or> j = paper_id_item aid' ttl' auths' abstr' cats' (extract_keywords abstr' 10) pub'"
    by (rule loaded_item_source)
  from j' j(2) obtain a' where a': "j = author_item aid' (take 10 pub') ttl' auths' cats' pub' a'"
      "aid' = aid" "a' @ ''#'' @ take 10 pub' = name @ ''#'' @ take 10 pub"
    by (auto simp: category_item_def author_item_def keyword_item_def paper_id_item_def item_key_def)
  have "paper_arxiv_id (full_paper aid' ttl' auths' abstr' cats' pub')
          = paper_arxiv_id (full_paper aid ttl auths abstr cats pub)"
    using a'(2) by (simp add: full_paper_def)
  with assms(2) P P' have "full_paper aid' ttl' auths' abstr' cats' pub' = full_paper aid ttl auths abstr cats pub"
    by (meson distinct_map inj_onD)
  then have "pub' = pub"
    by (simp add: full_paper_def)
  with a'(3) have "a' = name"
    by simp
  with a'(1,2) have "GSI1PK j = Some (''AUTHOR#'' @ name) \<and> arxiv_id j = aid"
    by (simp add: author_item_def)
  with j(1) ia(2) show ?thesis
    by auto
qed

text \<open>
  C9, as stated, fails: the index query carries the limit and the scan does not. With the
  default limit of 10 and eleven papers of the author, the index path returns ten items
  and misses paper \<open>2401.00011\<close>, which the scan returns.
\<close>

theorem by_author_limit_counterexample:
  "\<not> isl (load_papers einstein_fixture)
   \<and> \<not> isl (api_query_papers_by_author (dynamodb (projr (load_papers einstein_fixture)))
        ''A. Einstein'' 10)
   \<and> length (projr (api_query_papers_by_author (dynamodb (projr (load_papers einstein_fixture)))
        ''A. Einstein'' 10)) = 10
   \<and> ''2401.00011'' \<notin> set (map arxiv_id (projr (api_query_papers_by_author
        (dynamodb (projr (load_papers einstein_fixture))) ''A. Einstein'' 10)))
   \<and> \<not> isl (api_query_papers_by_author
        (dynamodb (without_index AuthorIndex (projr (load_papers einstein_fixture)))) ''A. Einstein'' 10)
   \<and> ''2401.00011'' \<in> set (map arxiv_id (projr (api_query_papers_by_author
        (dynamodb (without_index AuthorIndex (projr (load_papers einstein_fixture)))) ''A. Einstein'' 10)))"
  by code_simp

text \<open>
  C9, amended. On a table loaded from records with pairwise different ids, for every author
  name and every limit that is not below the number of the author's entries in the author
  index, the by-author query returns the same set of paper ids with the author index
  present (the index query) and with the index disabled (the scan for items whose
  \<open>authors\<close> contain the name).
\<close>

theorem by_author_fallback_equivalent:
  assumes "load_papers ps = Inr t" and "distinct (map paper_arxiv_id ps)"
    and "int (length (filter (\<lambda>i. GSI1PK i = Some (''AUTHOR#'' @ name)) (items t))) \<le> limit"
  shows "\<exists>r1 r2. api_query_papers_by_author (dynamodb t) name limit = Inr r1
           \<and> api_query_papers_by_author (dynamodb (without_index AuthorIndex t)) name limit = Inr r2
           \<and> set (map arxiv_id r1) = set (map arxiv_id r2)"
proof -
  define pk where "pk = ''AUTHOR#'' @ name"
  define scan where "scan = filter (\<lambda>i. name \<in> set (authors i)) (items t)"
  define xs where "xs = filter (\<lambda>i. GSI1PK i = Some pk \<and> GSI1SK i \<noteq> None) (items t)"
  define t' where "t' = without_index AuthorIndex t"
  define srt where "srt = sort_key (sort_attr (Some AuthorIndex)) xs"
  have it: "items t' = items t" and no: "AuthorIndex \<notin> set (gsis t')"
    by (simp_all add: without_index_def t'_def)
  have g: "AuthorIndex \<in> set (gsis t)"
    using loaded_gsis [OF assms(1)] by simp
  have q': "dynamodb t' (Query (Some AuthorIndex) pk None True (Some limit)) = Inl ParamValidationError
          \<or> dynamodb t' (Query (Some AuthorIndex) pk None True (Some limit)) = Inl ValidationException"
    unfolding dynamodb_author_index using no by simp
  have s': "dynamodb t' (Scan_authors_contains name) = Inr scan"
    unfolding dynamodb_scan it scan_def ..
  have r2: "api_query_papers_by_author (dynamodb t') name limit = Inr scan"
    unfolding api_query_papers_by_author_def pk_def [symmetric]
    using q' s' by auto
  have s: "dynamodb t (Scan_authors_contains name) = Inr scan"
    unfolding dynamodb_scan scan_def ..
  show ?thesis
  proof (cases "limit < 1")
    case True
    have "dynamodb t (Query (Some AuthorIndex) pk None True (Some limit)) = Inl ParamValidationError"
      unfolding dynamodb_author_index using True by simp
    then have "api_query_papers_by_author (dynamodb t) name limit = Inr scan"
      unfolding api_query_papers_by_author_def pk_def [symmetric] using s by simp
    with r2 show ?thesis
      unfolding t'_def by (intro exI [of _ scan] conjI) simp_all
  next
    case False
    have eq: "xs = filter (\<lambda>i. GSI1PK i = Some pk) (items t)"
      unfolding xs_def
    proof (rule filter_cong [OF refl])
      fix i assume "i \<in> set (items t)"
      then show "(GSI1PK i = Some pk \<and> GSI1SK i \<noteq> None) = (GSI1PK i = Some pk)"
        using loaded_author_index_item [OF assms(1), of i name] unfolding pk_def by blast
    qed
    have "length xs \<le> nat limit"
      unfolding eq pk_def using assms(3) by linarith
    then have "length srt \<le> nat limit"
      by (simp add: srt_def)
    then have tk: "take (nat limit) srt = srt"
      by (rule take_all)
    have "dynamodb t (Query (Some AuthorIndex) pk None True (Some limit)) = Inr (take (nat limit) srt)"
      unfolding dynamodb_author_index srt_def xs_def using False g by simp
    then have r1: "api_query_papers_by_author (dynamodb t) name limit = Inr srt"
      unfolding api_query_papers_by_author_def pk_def [symmetric] tk by simp
    have "arxiv_id ` set xs = arxiv_id ` set scan"
    proof (intro equalityI subsetI)
      fix x assume "x \<in> arxiv_id ` set xs"
      then obtain i where i: "i \<in> set (items t)" "GSI1PK i = Some (''AUTHOR#'' @ name)" "x = arxiv_id i"
        unfolding xs_def pk_def by auto
      from loaded_author_index_item [OF assms(1) i(1,2)] have "i \<in> set scan"
        unfolding scan_def using i(1) by simp
      with i(3) show "x \<in> arxiv_id ` set scan"
        by (rule_tac image_eqI)
    next
      fix x assume "x \<in> arxiv_id ` set scan"
      then obtain i where i: "i \<in> set (items t)" "name \<in> set (authors i)" "x = arxiv_id i"
        unfolding scan_def by auto
      from loaded_author_entry_exists [OF assms(1,2) i(1,2)] obtain j where
        j: "j \<in> set (items t)" "GSI1PK j = Some (''AUTHOR#'' @ name)" "arxiv_id j = arxiv_id i"
        by blast
      from loaded_author_index_item [OF assms(1) j(1,2)] j(1,2) have "j \<in> set xs"
        unfolding xs_def pk_def by simp
      moreover have "x = arxiv_id j"
        using j(3) i(3) by simp
      ultimately show "x \<in> arxiv_id ` set xs"
        by (rule_tac image_eqI)
    qed
    then have "set (map arxiv_id srt) = set (map arxiv_id scan)"
      by (simp add: srt_def)
    with r1 r2 show ?thesis
      unfolding t'_def by (intro exI [of _ srt] exI [of _ scan] conjI)
  qed
qed

theorem by_author_fallback_equivalent_witness:
  "\<not> isl (load_papers fixture) \<and> distinct (map paper_arxiv_id fixture)
   \<and> int (length (filter (\<lambda>i. GSI1PK i = Some ''AUTHOR#A. Einstein'')
        (items (projr (load_papers fixture))))) \<le> 10
   \<and> map arxiv_id (projr (api_query_papers_by_author (dynamodb (projr (load_papers fixture)))
        ''A. Einstein'' 10)) = [''2401.00001'', ''2401.00002'']
   \<and> set (map arxiv_id (projr (api_query_papers_by_author (dynamodb (projr (load_papers fixture)))
        ''A. Einstein'' 10)))
      = set (map arxiv_id (projr (api_query_papers_by_author
          (dynamodb (without_index AuthorIndex (projr (load_papers fixture)))) ''A. Einstein'' 10)))"
proof -
  let ?t = "projr (load_papers fixture)"
  have l: "\<not> isl (load_papers fixture)"
    by code_simp
  then have h1: "load_papers fixture = Inr ?t"
    by (cases "load_papers fixture") simp_all
  have h2: "distinct (map paper_arxiv_id fixture)"
    by code_simp
  have h3: "int (length (filter (\<lambda>i. GSI1PK i = Some (''AUTHOR#'' @ ''A. Einstein'')) (items ?t))) \<le> 10"
    by code_simp
  have e: "map arxiv_id (projr (api_query_papers_by_author (dynamodb ?t) ''A. Einstein'' 10))
             = [''2401.00001'', ''2401.00002'']"
    by code_simp
  from by_author_fallback_equivalent [OF h1 h2 h3]
  obtain r1 r2 where "api_query_papers_by_author (dynamodb ?t) ''A. Einstein'' 10 = Inr r1"
    "api_query_papers_by_author (dynamodb (without_index AuthorIndex ?t)) ''A. Einstein'' 10 = Inr r2"
    "set (map arxiv_id r1) = set (map arxiv_id r2)"
    by blast
  with l h2 h3 e show ?thesis
    by simp
qed

section \<open>A limit below one\<close>

text \<open>
  C7. A query with a limit of 0 or below is to fail. On the loaded fixture the two query
  functions of query\_papers.py do fail with the limits 0 and -1: the table object's
  parameter validation refuses the query before a request is sent, and the exception
  propagates. The by-author query of the server does not fail: the author index is
  present and the index query is refused for the limit 0 in the same way, but the handler
  meant for a missing index catches the exception, and the function answers with the five
  items of the unlimited scan.
\<close>

theorem by_author_swallows_limit_error:
  "\<not> isl (load_papers fixture)
   \<and> query_recent_in_category (dynamodb (projr (load_papers fixture))) ''cs.AI'' 0
       = Inl ParamValidationError
   \<and> query_recent_in_category (dynamodb (projr (load_papers fixture))) ''cs.AI'' (- 1)
       = Inl ParamValidationError
   \<and> query_papers_by_keyword (dynamodb (projr (load_papers fixture))) ''model'' 0
       = Inl ParamValidationError
   \<and> AuthorIndex \<in> set (gsis (projr (load_papers fixture)))
   \<and> dynamodb (projr (load_papers fixture))
        (Query (Some AuthorIndex) ''AUTHOR#N. Bohr'' None True (Some 0))
       = Inl ParamValidationError
   \<and> \<not> isl (api_query_papers_by_author (dynamodb (projr (load_papers fixture))) ''N. Bohr'' 0)
   \<and> map arxiv_id (projr (api_query_papers_by_author (dynamodb (projr (load_papers fixture)))
        ''N. Bohr'' 0)) = [''2401.00002'', ''2401.00002'', ''2401.00002'', ''2401.00002'', ''2401.00002'']"
  by code_simp

end
